theory Spec2Isabelle
  imports Main "HOL-Library.Sublist"
begin

section \<open>Data model\<close>

text \<open>
  The structured arguments of a tool invocation are what the model endpoint sent: a JSON
  value. Python reads it with \<^verbatim>\<open>d["key"]\<close>, which raises KeyError on a dictionary
  without the key and TypeError on anything that is not a dictionary.
\<close>

datatype json =
    JNull
  | JBool bool
  | JInt int
  | JStr string
  | JList "json list"
  | JDict "(string \<times> json) list"

datatype error =
    IndexError
  | KeyError string
  | TypeError
  | AttributeError
  | UnboundLocalError
  | ValueError
  | ToolInputError
  | GraphRecursionError
  | Fault string

record tool_call =
  call_name :: string
  call_args :: json
  call_id :: string

text \<open>
  The message classes the program builds or receives (a prompt template's "system" and
  "user" entries become a \<open>SystemMessage\<close> and a \<open>HumanMessage\<close>). Only an \<open>AIMessage\<close> has the
  attribute \<^verbatim>\<open>tool_calls\<close>; the attribute \<^verbatim>\<open>type\<close> is the class's constant string.
\<close>

datatype message =
    HumanMessage string
  | AIMessage string "tool_call list"
  | ToolMessage string string
  | SystemMessage string

fun mtype :: "message \<Rightarrow> string" where
  "mtype (HumanMessage _) = ''human''"
| "mtype (AIMessage _ _) = ''ai''"
| "mtype (ToolMessage _ _) = ''tool''"
| "mtype (SystemMessage _) = ''system''"

fun tool_calls :: "message \<Rightarrow> error + tool_call list" where
  "tool_calls (AIMessage _ tcs) = Inr tcs"
| "tool_calls _ = Inl AttributeError"

fun getitem :: "json \<Rightarrow> string \<Rightarrow> error + json" where
  "getitem (JDict kvs) k = (case map_of kvs k of None \<Rightarrow> Inl (KeyError k) | Some v \<Rightarrow> Inr v)"
| "getitem _ k = Inl TypeError"

fun first_item :: "'a list \<Rightarrow> error + 'a" where
  "first_item [] = Inl IndexError"
| "first_item (x # _) = Inr x"

section \<open>External collaborators and their effects\<close>

text \<open>
  Every call the program makes to the outside (a model endpoint, the retriever, the
  policy checker, the page) is recorded, in order, with what was sent and what came back.
  A collaborator answers from the record of everything that happened before and from its
  input, so that a stub may answer its second call differently from its first.
\<close>

datatype event =
    Invoke "message list" "string list" "error + message"
  | Retrieval string "error + string"
  | SimilaritySearch json "error + string"
  | Guardrails string "error + json"
  | LlmShort "message list" "error + string"
  | Write message

fun is_Invoke :: "event \<Rightarrow> bool" where
  "is_Invoke (Invoke _ _ _) = True"
| "is_Invoke _ = False"

text \<open>What \<^verbatim>\<open>validator.invoke(response)\<close> does: it returns, raises ValidationError
  (kept with its \<^verbatim>\<open>repr\<close>), or raises something else.\<close>

datatype verdict =
    Parsed
  | ValidationError string
  | Raised error

record responder =
  runnable :: "event list \<Rightarrow> message list \<Rightarrow> string list \<Rightarrow> error + message"
  validator :: "message \<Rightarrow> verdict"
  schema_json :: string

text \<open>
  The validators the program builds are tool parsers over one schema
  (\<^verbatim>\<open>PydanticToolsParser(tools=[AnswerQuestion])\<close> and the same over \<^verbatim>\<open>ReviseAnswer\<close>).
  \<open>schema\<close> is what building the schema's object from one tool invocation does. The
  parser takes the tool invocations of the message in order and raises what the first
  failing one raises; a message without tool invocations is parsed to the empty list,
  which is no error.
\<close>

fun parse_tool_calls :: "(tool_call \<Rightarrow> verdict) \<Rightarrow> tool_call list \<Rightarrow> verdict" where
  "parse_tool_calls schema [] = Parsed"
| "parse_tool_calls schema (tc # tcs) =
     (case schema tc of
        Parsed \<Rightarrow> parse_tool_calls schema tcs
      | ValidationError repr_e \<Rightarrow> ValidationError repr_e
      | Raised e \<Rightarrow> Raised e)"

definition pydantic_tools_parser :: "(tool_call \<Rightarrow> verdict) \<Rightarrow> message \<Rightarrow> verdict" where
  "pydantic_tools_parser schema m =
     (case tool_calls m of Inl e \<Rightarrow> Parsed | Inr tcs \<Rightarrow> parse_tool_calls schema tcs)"

section \<open>Python lists as objects\<close>

text \<open>
  \<^verbatim>\<open>respond\<close> receives a reference to the caller's list. The store holds the list objects
  allocated so far; a reference is the index of its object. \<^verbatim>\<open>state + [...]\<close> allocates
  a new object and leaves both operands as they were.
\<close>

type_synonym ref = nat
type_synonym store = "message list list"

definition new_list :: "store \<Rightarrow> message list \<Rightarrow> store \<times> ref" where
  "new_list h xs = (h @ [xs], length h)"

section \<open>ResponderWithRetries\<close>

text \<open>The decimal text of a number, as an f-string renders it.\<close>

definition digit :: "nat \<Rightarrow> char" where
  "digit n = ''0123456789'' ! n"

fun str_nat :: "nat \<Rightarrow> string" where
  "str_nat n = (if n < 10 then [digit n] else str_nat (n div 10) @ [digit (n mod 10)])"

declare str_nat.simps [simp del]

definition corrective_content :: "string \<Rightarrow> string \<Rightarrow> string" where
  "corrective_content repr_e schema =
     repr_e @ [CHR 0x0A, CHR 0x0A] @ ''Pay close attention to the function schema.''
       @ [CHR 0x0A, CHR 0x0A] @ schema @ '' Respond by fixing all validation errors.''"

text \<open>
  The loop \<^verbatim>\<open>for attempt in range(3)\<close>, over the attempts still to make. \<open>response\<close> is
  the local variable of that name: unbound before the first attempt. \<open>state\<close> is the local
  variable \<^verbatim>\<open>state\<close>, a reference.
\<close>

fun respond_loop ::
  "responder \<Rightarrow> nat list \<Rightarrow> message option \<Rightarrow> store \<Rightarrow> ref \<Rightarrow> event list
     \<Rightarrow> (error + message) \<times> store \<times> event list" where
  "respond_loop rs [] response h state log =
     (case response of None \<Rightarrow> (Inl UnboundLocalError, h, log) | Some r \<Rightarrow> (Inr r, h, log))"
| "respond_loop rs (attempt # rest) response h state log =
     (let messages = h ! state;
          tags = [''attempt:'' @ str_nat attempt];
          answer = runnable rs log messages tags;
          log' = log @ [Invoke messages tags answer]
      in case answer of
           Inl e \<Rightarrow> (Inl e, h, log')
         | Inr response' \<Rightarrow>
             (case validator rs response' of
                Parsed \<Rightarrow> (Inr response', h, log')
              | Raised e \<Rightarrow> (Inl e, h, log')
              | ValidationError repr_e \<Rightarrow>
                  (case tool_calls response' of
                     Inl e \<Rightarrow> (Inl e, h, log')
                   | Inr tcs \<Rightarrow>
                       (case first_item tcs of
                          Inl e \<Rightarrow> (Inl e, h, log')
                        | Inr tc \<Rightarrow>
                            (let (h', state') =
                                   new_list h (h ! state @
                                     [response',
                                      ToolMessage (corrective_content repr_e (schema_json rs))
                                        (call_id tc)])
                             in respond_loop rs rest (Some response') h' state' log')))))"

definition respond ::
  "responder \<Rightarrow> store \<Rightarrow> ref \<Rightarrow> event list \<Rightarrow> (error + message) \<times> store \<times> event list" where
  "respond rs h state log = respond_loop rs [0, 1, 2] None h state log"

section \<open>The tool-execution function\<close>

text \<open>\<open>retrieval_chain\<close> is the conversational retrieval chain: the question in, the value
  under \<^verbatim>\<open>'answer'\<close> out, or a failure.\<close>

type_synonym retrieval_chain = "event list \<Rightarrow> string \<Rightarrow> error + string"

fun run_queries_loop ::
  "retrieval_chain \<Rightarrow> string list \<Rightarrow> string list \<Rightarrow> event list
     \<Rightarrow> (error + string list) \<times> event list" where
  "run_queries_loop rc [] results log = (Inr results, log)"
| "run_queries_loop rc (query # rest) results log =
     (let answer = rc log query; log' = log @ [Retrieval query answer]
      in case answer of
           Inl e \<Rightarrow> (Inl e, log')
         | Inr response \<Rightarrow> run_queries_loop rc rest (results @ [response]) log')"

definition run_queries ::
  "retrieval_chain \<Rightarrow> string list \<Rightarrow> event list \<Rightarrow> (error + string list) \<times> event list" where
  "run_queries rc search_queries log = run_queries_loop rc search_queries [] log"

section \<open>The transition after the revise node\<close>

datatype next_node = execute_tools | END

fun count_trailing :: "message list \<Rightarrow> int \<Rightarrow> int" where
  "count_trailing [] i = i"
| "count_trailing (m # ms) i =
     (if mtype m \<notin> {''tool'', ''ai''} then i else count_trailing ms (i + 1))"

definition get_num_iterations :: "message list \<Rightarrow> int" where
  "get_num_iterations state = count_trailing (rev state) 0"

definition event_loop :: "int \<Rightarrow> message list \<Rightarrow> next_node" where
  "event_loop agent_iterations state =
     (let num_iterations = get_num_iterations state
      in if num_iterations > agent_iterations then END else execute_tools)"

text \<open>The rule in the specification's words: the number of consecutive trailing messages,
  from the end of the history backward, whose role is ai or tool.\<close>

definition trailing_run_length :: "message list \<Rightarrow> nat" where
  "trailing_run_length history =
     length (takeWhile (\<lambda>m. mtype m = ''ai'' \<or> mtype m = ''tool'') (rev history))"

section \<open>The graph: draft, execute_tools, revise\<close>

text \<open>
  Everything the generator object holds: its two responders, its collaborators and its
  settings. \<open>similarity_search\<close> stands for \<^verbatim>\<open>str(self.db.similarity_search(x))\<close>,
  \<open>llm_short\<close> for the model behind \<^verbatim>\<open>chain_short\<close>. \<open>chain_with_guardrails\<close> is the
  guarded chain \<^verbatim>\<open>guardrails | chain\<close>: it answers with text, or, when the policy model
  behind it fails, with a dictionary, the failure being caught inside it; what it raises
  itself leaves the function. \<open>from_messages\<close> is what the prompt library does with a
  system text handed to \<^verbatim>\<open>ChatPromptTemplate.from_messages\<close>: it builds the template or
  raises. \<open>str_output\<close> is how the tool node renders a tool's result as message text, and
  \<open>recursion_limit\<close> the number of steps the graph engine allows.
\<close>

record generator =
  first_responder :: responder
  revisor :: responder
  retrieval_chain :: retrieval_chain
  similarity_search :: "event list \<Rightarrow> json \<Rightarrow> error + string"
  chain_with_guardrails :: "event list \<Rightarrow> string \<Rightarrow> error + json"
  from_messages :: "string \<Rightarrow> error option"
  llm_short :: "event list \<Rightarrow> message list \<Rightarrow> error + string"
  str_output :: "string list \<Rightarrow> string"
  agent_iterations :: int
  iterations :: int
  recursion_limit :: nat

text \<open>A graph node is handed the graph's message list as a list object of its own.\<close>

definition respond_node :: "responder \<Rightarrow> message list \<Rightarrow> event list
    \<Rightarrow> (error + message) \<times> event list" where
  "respond_node rs state log = (case respond rs [state] 0 log of (res, h, log') \<Rightarrow> (res, log'))"

text \<open>
  The tool's argument \<^verbatim>\<open>search_queries: list[str]\<close> is validated before the function
  runs: a string is taken as it is, a number or a truth value is replaced by its text,
  anything else is refused.
\<close>

definition str_int :: "int \<Rightarrow> string" where
  "str_int i = (if i < 0 then ''-'' @ str_nat (nat (- i)) else str_nat (nat i))"

fun as_str :: "json \<Rightarrow> error + string" where
  "as_str (JStr s) = Inr s"
| "as_str (JInt i) = Inr (str_int i)"
| "as_str (JBool b) = Inr (if b then ''True'' else ''False'')"
| "as_str _ = Inl ToolInputError"

fun as_str_list :: "json list \<Rightarrow> error + string list" where
  "as_str_list [] = Inr []"
| "as_str_list (j # js) =
     (case as_str j of
        Inl e \<Rightarrow> Inl e
      | Inr s \<Rightarrow> (case as_str_list js of Inl e \<Rightarrow> Inl e | Inr ss \<Rightarrow> Inr (s # ss)))"

text \<open>
  The tool node registers \<^verbatim>\<open>run_queries\<close> under the names of the two schemas. For each
  tool invocation of the last message, in order, it looks the tool up by name, hands it
  the \<^verbatim>\<open>search_queries\<close> argument, and answers with one tool message carrying the
  rendered results and the invocation's id. Nothing is caught.
\<close>

fun run_one :: "generator \<Rightarrow> tool_call \<Rightarrow> event list \<Rightarrow> (error + message) \<times> event list" where
  "run_one g call log =
     (if call_name call \<notin> {''AnswerQuestion'', ''ReviseAnswer''} then (Inl (KeyError (call_name call)), log)
      else case getitem (call_args call) ''search_queries'' of
             Inl e \<Rightarrow> (Inl ToolInputError, log)
           | Inr (JList js) \<Rightarrow>
               (case as_str_list js of
                  Inl e \<Rightarrow> (Inl e, log)
                | Inr search_queries \<Rightarrow>
                    (case run_queries (retrieval_chain g) search_queries log of
                       (Inl e, log') \<Rightarrow> (Inl e, log')
                     | (Inr results, log') \<Rightarrow>
                         (Inr (ToolMessage (str_output g results) (call_id call)), log')))
           | Inr _ \<Rightarrow> (Inl ToolInputError, log))"

fun run_calls :: "generator \<Rightarrow> tool_call list \<Rightarrow> event list
    \<Rightarrow> (error + message list) \<times> event list" where
  "run_calls g [] log = (Inr [], log)"
| "run_calls g (call # calls) log =
     (case run_one g call log of
        (Inl e, log') \<Rightarrow> (Inl e, log')
      | (Inr m, log') \<Rightarrow>
          (case run_calls g calls log' of
             (Inl e, log'') \<Rightarrow> (Inl e, log'')
           | (Inr ms, log'') \<Rightarrow> (Inr (m # ms), log'')))"

definition tool_node :: "generator \<Rightarrow> message list \<Rightarrow> event list
    \<Rightarrow> (error + message list) \<times> event list" where
  "tool_node g state log =
     (case tool_calls (last state) of
        Inl e \<Rightarrow> (Inl e, log)
      | Inr calls \<Rightarrow> run_calls g calls log)"

datatype node = draft | execute_tools_node | revise

text \<open>One node execution: the messages the node returns are appended to the graph's
  list, and the edge out of the node names the next one (\<open>None\<close> is the end).\<close>

fun run_node :: "generator \<Rightarrow> node \<Rightarrow> message list \<Rightarrow> event list
    \<Rightarrow> (error + message list \<times> node option) \<times> event list" where
  "run_node g draft state log =
     (case respond_node (first_responder g) state log of
        (Inl e, log') \<Rightarrow> (Inl e, log')
      | (Inr m, log') \<Rightarrow> (Inr (state @ [m], Some execute_tools_node), log'))"
| "run_node g execute_tools_node state log =
     (case tool_node g state log of
        (Inl e, log') \<Rightarrow> (Inl e, log')
      | (Inr ms, log') \<Rightarrow> (Inr (state @ ms, Some revise), log'))"
| "run_node g revise state log =
     (case respond_node (revisor g) state log of
        (Inl e, log') \<Rightarrow> (Inl e, log')
      | (Inr m, log') \<Rightarrow>
          (Inr (state @ [m],
                case event_loop (agent_iterations g) (state @ [m]) of
                  END \<Rightarrow> None
                | execute_tools \<Rightarrow> Some execute_tools_node), log'))"

text \<open>
  \<^verbatim>\<open>for i, step in enumerate(events): st.write(step[-1])\<close> over the stream of the
  graph's values: the stream yields the list after every node execution, and the loop
  writes its last message before the next node runs. \<open>step\<close> is the list yielded last.
  The engine spends one step per node execution and needs one more to see that nothing
  is left to run; out of steps, it raises.
\<close>

fun stream_steps :: "generator \<Rightarrow> nat \<Rightarrow> node option \<Rightarrow> message list \<Rightarrow> event list
    \<Rightarrow> (error + message list) \<times> event list" where
  "stream_steps g 0 n step log = (Inl GraphRecursionError, log)"
| "stream_steps g (Suc fuel) None step log = (Inr step, log)"
| "stream_steps g (Suc fuel) (Some n) step log =
     (case run_node g n step log of
        (Inl e, log') \<Rightarrow> (Inl e, log')
      | (Inr (step', next), log') \<Rightarrow>
          stream_steps g fuel next step' (log' @ [Write (last step')]))"

definition graph_stream :: "generator \<Rightarrow> message list \<Rightarrow> event list
    \<Rightarrow> (error + message list) \<times> event list" where
  "graph_stream g input log =
     stream_steps g (recursion_limit g) (Some draft) input (log @ [Write (last input)])"

section \<open>The outer loop\<close>

definition seed_content :: "string \<Rightarrow> string" where
  "seed_content notnovelhyp =
     ''Come up with new hypotheses in the context. ALWAYS make sure that your hypothesis is novel compared to the following known hypotheses (don''
     @ [CHR 0x27] @
     ''t include the known hypotheses and don''
     @ [CHR 0x27] @
     ''t generate anything related to them conceptually): ''
     @ notnovelhyp"

definition prompt :: "string \<Rightarrow> message list" where
  "prompt input =
     [SystemMessage ''You are world class technical documentation writer.'', HumanMessage input]"

definition prompt_short :: "string \<Rightarrow> string \<Rightarrow> message list" where
  "prompt_short shortname_hyp input =
     [SystemMessage (''You are world class technical documentation writer. Given a list of publications, decide how the following hypothesis relates to it: '' @ shortname_hyp),
      HumanMessage (''The list of publications: '' @ input)]"

text \<open>\<^verbatim>\<open>step[-1].tool_calls[0]["args"]\<close>; the graph's list is never empty.\<close>

definition final_args :: "message list \<Rightarrow> error + json" where
  "final_args step =
     (case tool_calls (last step) of
        Inl e \<Rightarrow> Inl e
      | Inr calls \<Rightarrow> (case first_item calls of Inl e \<Rightarrow> Inl e | Inr call \<Rightarrow> Inr (call_args call)))"

definition reflection_field :: "message list \<Rightarrow> string \<Rightarrow> error + json" where
  "reflection_field step key =
     (case final_args step of
        Inl e \<Rightarrow> Inl e
      | Inr args \<Rightarrow>
          (case getitem args ''reflection'' of Inl e \<Rightarrow> Inl e | Inr r \<Rightarrow> getitem r key))"

definition answer_field :: "message list \<Rightarrow> error + json" where
  "answer_field step =
     (case final_args step of Inl e \<Rightarrow> Inl e | Inr args \<Rightarrow> getitem args ''answer'')"

text \<open>\<^verbatim>\<open>"text" + x\<close> for a value \<open>x\<close> read from the arguments: only a string can be
  added to a string.\<close>

fun str_add :: "string \<Rightarrow> json \<Rightarrow> error + string" where
  "str_add s (JStr t) = Inr (s @ t)"
| "str_add s _ = Inl TypeError"

text \<open>A row: the column names in the order written, each with its value.\<close>

type_synonym row = "(string \<times> json) list"

text \<open>
  \<^verbatim>\<open>pd.DataFrame({...}, index=[0])\<close> makes one row of the dictionary. A scalar (a string,
  a number, a truth value, None) is the cell as it is; a list has to have exactly one
  element, which is the cell; a dictionary is aligned with the index, where none of its
  keys is, and leaves the cell empty. The empty cell (NaN) is written \<open>JNull\<close>.
\<close>

fun data_frame_cell :: "json \<Rightarrow> error + json" where
  "data_frame_cell (JList [x]) = Inr x"
| "data_frame_cell (JList xs) = Inl ValueError"
| "data_frame_cell (JDict kvs) = Inr JNull"
| "data_frame_cell v = Inr v"

fun data_frame :: "row \<Rightarrow> error + row" where
  "data_frame [] = Inr []"
| "data_frame ((k, v) # kvs) =
     (case data_frame_cell v of
        Inl e \<Rightarrow> Inl e
      | Inr c \<Rightarrow> (case data_frame kvs of Inl e \<Rightarrow> Inl e | Inr r \<Rightarrow> Inr ((k, c) # r)))"

record session =
  hypothesisdf_all :: "row list"
  notnovelhyp :: string
  events :: "event list"

definition bind :: "error + 'a \<Rightarrow> ('a \<Rightarrow> error + 'b) \<Rightarrow> error + 'b" where
  "bind x f = (case x of Inl e \<Rightarrow> Inl e | Inr v \<Rightarrow> f v)"

text \<open>The first eight entries of the dictionary literal, read from the final message in
  the order written; the first lookup that raises ends the evaluation.\<close>

definition extracted_fields :: "message list \<Rightarrow> error + row" where
  "extracted_fields step =
     bind (reflection_field step ''shortname'') (\<lambda>v1.
     bind (answer_field step) (\<lambda>v2.
     bind (reflection_field step ''noveltyscore'') (\<lambda>v3.
     bind (reflection_field step ''notnovel'') (\<lambda>v4.
     bind (reflection_field step ''missing'') (\<lambda>v5.
     bind (reflection_field step ''superfluous'') (\<lambda>v6.
     bind (reflection_field step ''flag'') (\<lambda>v7.
     bind (reflection_field step ''references_field'') (\<lambda>v8.
       Inr [(''Hypotheses short description'', v1),
            (''Generated Hypotheses'', v2),
            (''Novelty'', v3),
            (''What is not novel'', v4),
            (''Missing'', v5),
            (''Superfluous'', v6),
            (''Flag'', v7),
            (''References'', v8)]))))))))"

text \<open>
  The whole dictionary literal: after the eight lookups, the policy check on the answer
  text, then \<^verbatim>\<open>chain_short.invoke(listofpapers)\<close>, where \<^verbatim>\<open>chain_short\<close> is
  \<^verbatim>\<open>prompt | self.llm_short | output_parser\<close>; then the data frame of one row.
\<close>

definition make_row :: "generator \<Rightarrow> message list \<Rightarrow> string \<Rightarrow> event list
    \<Rightarrow> (error + row) \<times> event list" where
  "make_row g step listofpapers l =
     (case extracted_fields step of
        Inl e \<Rightarrow> (Inl e, l)
      | Inr columns \<Rightarrow>
          (case bind (answer_field step)
                  (str_add ''Does the following contain any restricted topics?: '') of
             Inl e \<Rightarrow> (Inl e, l)
           | Inr question \<Rightarrow>
               (let judged = chain_with_guardrails g l question;
                    l' = l @ [Guardrails question judged]
                in case judged of
                     Inl e \<Rightarrow> (Inl e, l')
                   | Inr biohazard \<Rightarrow>
                       (let related = llm_short g l' (prompt listofpapers);
                            l'' = l' @ [LlmShort (prompt listofpapers) related]
                        in case related of
                             Inl e \<Rightarrow> (Inl e, l'')
                           | Inr relations \<Rightarrow>
                               (data_frame (columns @
                                  [(''Biohazard'', biohazard),
                                   (''Relations to literature'', JStr relations)]), l'')))))"

text \<open>
  One pass of the body of \<^verbatim>\<open>for hypothesis_cycle in range(self.iterations)\<close>. The error,
  if any, leaves the function; the session keeps what was stored before it. The system
  text of \<^verbatim>\<open>prompt_short\<close> is the fixed sentence with the short name added, and building
  the template from it is the prompt library's step.
\<close>

definition hypothesis_cycle :: "generator \<Rightarrow> session \<Rightarrow> error option \<times> session" where
  "hypothesis_cycle g s =
     (case graph_stream g [HumanMessage (seed_content (notnovelhyp s))] (events s) of
        (Inl e, l1) \<Rightarrow> (Some e, s\<lparr>events := l1\<rparr>)
      | (Inr step, l1) \<Rightarrow>
          (case reflection_field step ''shortname'' of
             Inl e \<Rightarrow> (Some e, s\<lparr>events := l1\<rparr>)
           | Inr shortname_hyp \<Rightarrow>
               (let found = similarity_search g l1 shortname_hyp;
                    l2 = l1 @ [SimilaritySearch shortname_hyp found]
                in case found of
                     Inl e \<Rightarrow> (Some e, s\<lparr>events := l2\<rparr>)
                   | Inr listofpapers \<Rightarrow>
                       (case str_add ''You are world class technical documentation writer. Given a list of publications, decide how the following hypothesis relates to it: '' shortname_hyp of
                          Inl e \<Rightarrow> (Some e, s\<lparr>events := l2\<rparr>)
                        | Inr system_text \<Rightarrow>
                            (case from_messages g system_text of
                               Some e \<Rightarrow> (Some e, s\<lparr>events := l2\<rparr>)
                             | None \<Rightarrow>
                                 (case make_row g step listofpapers l2 of
                                    (Inl e, l3) \<Rightarrow> (Some e, s\<lparr>events := l3\<rparr>)
                                  | (Inr hypothesisdf, l3) \<Rightarrow>
                                      (let s' = s\<lparr>hypothesisdf_all :=
                                                    hypothesisdf_all s @ [hypothesisdf],
                                                  events := l3\<rparr>
                                       in case bind (reflection_field step ''shortname'')
                                                 (str_add (notnovelhyp s)) of
                                            Inl e \<Rightarrow> (Some e, s')
                                          | Inr longer \<Rightarrow>
                                              (None, s'\<lparr>notnovelhyp := longer\<rparr>))))))))"

fun cycles :: "generator \<Rightarrow> nat \<Rightarrow> session \<Rightarrow> error option \<times> session" where
  "cycles g 0 s = (None, s)"
| "cycles g (Suc n) s =
     (case hypothesis_cycle g s of
        (Some e, s') \<Rightarrow> (Some e, s')
      | (None, s') \<Rightarrow> cycles g n s')"

text \<open>
  \<^verbatim>\<open>generate_hypotheses\<close>, from the table the session held before and the record so far.
  The first call to the responder is made and its answer dropped; the table is emptied
  only after it.
\<close>

definition generate_hypotheses :: "generator \<Rightarrow> row list \<Rightarrow> event list
    \<Rightarrow> (error + row list) \<times> session" where
  "generate_hypotheses g table l =
     (case respond (first_responder g)
             [[HumanMessage ''Come up with new hypotheses in the context.'']] 0 l of
        (Inl e, h, l') \<Rightarrow> (Inl e, \<lparr>hypothesisdf_all = table, notnovelhyp = [], events = l'\<rparr>)
      | (Inr initial, h, l') \<Rightarrow>
          (case cycles g (nat (iterations g))
                  \<lparr>hypothesisdf_all = [], notnovelhyp = [], events = l'\<rparr> of
             (Some e, s) \<Rightarrow> (Inl e, s)
           | (None, s) \<Rightarrow> (Inr (hypothesisdf_all s), s)))"

section \<open>Reading the record\<close>

text \<open>The response an invocation returned; whether the responder's validator rejected
  it; whether it carries at least one tool invocation.\<close>

fun response_of :: "event \<Rightarrow> message option" where
  "response_of (Invoke _ _ (Inr m)) = Some m"
| "response_of _ = None"



text \<open>The retrievals of a run that answered every query: each query with its answer.\<close>

definition retrievals :: "string list \<Rightarrow> string list \<Rightarrow> event list" where
  "retrievals queries answers = map (\<lambda>(q, r). Retrieval q (Inr r)) (zip queries answers)"

text \<open>An event whose call failed; the short name a row carries; the columns of a row.\<close>

fun failed :: "event \<Rightarrow> bool" where
  "failed (Invoke _ _ (Inl _)) = True"
| "failed (Retrieval _ (Inl _)) = True"
| "failed (SimilaritySearch _ (Inl _)) = True"
| "failed (Guardrails _ (Inl _)) = True"
| "failed (LlmShort _ (Inl _)) = True"
| "failed _ = False"

definition short_name_of :: "row \<Rightarrow> string" where
  "short_name_of r =
     (case map_of r ''Hypotheses short description'' of Some (JStr s) \<Rightarrow> s | _ \<Rightarrow> [])"




section \<open>Stubs for concrete runs\<close>

definition bad_call :: tool_call where
  "bad_call = \<lparr>call_name = ''AnswerQuestion'', call_args = JDict [], call_id = ''call_1''\<rparr>"

definition good_call :: tool_call where
  "good_call = \<lparr>call_name = ''AnswerQuestion'',
     call_args = JDict [(''answer'', JStr ''a''), (''search_queries'', JList [JStr ''q1''])],
     call_id = ''call_2''\<rparr>"

text \<open>A model whose every response carries a tool invocation that the schema refuses.\<close>

definition rejecting_responder :: responder where
  "rejecting_responder =
     \<lparr>runnable = (\<lambda>l ms tg. Inr (AIMessage (concat tg) [bad_call])),
      validator = pydantic_tools_parser (\<lambda>tc. ValidationError ''1 validation error''),
      schema_json = ''{}''\<rparr>"


text \<open>A model whose second response is the first to meet the schema.\<close>

definition second_try_responder :: responder where
  "second_try_responder =
     \<lparr>runnable = (\<lambda>l ms tg. if length l = 1 then Inr (AIMessage ''second'' [good_call])
                                else Inr (AIMessage ''other'' [bad_call])),
      validator = pydantic_tools_parser
        (\<lambda>tc. if tc = good_call then Parsed else ValidationError ''1 validation error''),
      schema_json = ''{}''\<rparr>"

definition numbering_retriever :: retrieval_chain where
  "numbering_retriever l q =
     (if q = ''down'' then Inl (Fault ''retriever unavailable'')
      else Inr (q @ ''#'' @ str_nat (length l)))"

fun is_Guardrails :: "event \<Rightarrow> bool" where
  "is_Guardrails (Guardrails _ _) = True"
| "is_Guardrails _ = False"

fun is_LlmShort :: "event \<Rightarrow> bool" where
  "is_LlmShort (LlmShort _ _) = True"
| "is_LlmShort _ = False"

definition draft_call :: tool_call where
  "draft_call =
     \<lparr>call_name = ''AnswerQuestion'',
      call_args = JDict
        [(''answer'', JStr ''draft''),
         (''reflection'', JDict
            [(''missing'', JStr ''m0''), (''superfluous'', JStr ''s0''), (''notnovel'', JStr ''n0''),
             (''shortname'', JStr ''draft name''), (''noveltyscore'', JStr ''5''),
             (''references_field'', JStr ''r0''), (''flag'', JStr ''f0'')]),
         (''search_queries'', JList [JStr ''parp'', JStr ''brca''])],
      call_id = ''call_d''\<rparr>"

definition revise_call :: "string \<Rightarrow> json \<Rightarrow> tool_call" where
  "revise_call name missing =
     \<lparr>call_name = ''ReviseAnswer'',
      call_args = JDict
        [(''answer'', JStr (name @ '' in full'')),
         (''reflection'', JDict
            [(''missing'', missing), (''superfluous'', JStr ''s1''), (''notnovel'', JStr ''n1''),
             (''shortname'', JStr name), (''noveltyscore'', JStr ''7''),
             (''references_field'', JStr ''PMID 1''), (''flag'', JStr ''sound'')]),
         (''search_queries'', JList [JStr ''olaparib'']),
         (''references'', JList [JStr ''[1] a source''])],
      call_id = ''call_r''\<rparr>"

text \<open>
  The prompt library reads a template text as a Python format string. Outside a field,
  a doubled brace is a brace and a single closing brace is an error; an opening brace
  starts a field, which runs over its name (an index in square brackets is skipped, a
  further opening brace is an error), an optional conversion of one character after
  \<^verbatim>\<open>!\<close>, and an optional format specification after \<^verbatim>\<open>:\<close> in which braces nest, to
  its closing brace. The text is a template when the scan reaches its end.
\<close>

fun scan_text :: "string \<Rightarrow> bool"
and scan_field :: "string \<Rightarrow> bool"
and scan_index :: "string \<Rightarrow> bool"
and scan_spec :: "nat \<Rightarrow> string \<Rightarrow> bool" where
  "scan_text [] = True"
| "scan_text (c # cs) =
     (if c = CHR ''{'' then
        (case cs of [] \<Rightarrow> False | d # ds \<Rightarrow> if d = CHR ''{'' then scan_text ds else scan_field cs)
      else if c = CHR ''}'' then
        (case cs of [] \<Rightarrow> False | d # ds \<Rightarrow> if d = CHR ''}'' then scan_text ds else False)
      else scan_text cs)"
| "scan_field [] = False"
| "scan_field (c # cs) =
     (if c = CHR ''{'' then False
      else if c = CHR ''['' then scan_index cs
      else if c = CHR ''}'' then scan_text cs
      else if c = CHR '':'' then scan_spec 1 cs
      else if c = CHR ''!'' then
        (case cs of
           conversion # d # ds \<Rightarrow>
             if d = CHR ''}'' then scan_text ds
             else if d = CHR '':'' then scan_spec 1 ds else False
         | _ \<Rightarrow> False)
      else scan_field cs)"
| "scan_index [] = False"
| "scan_index (c # cs) = (if c = CHR '']'' then scan_field cs else scan_index cs)"
| "scan_spec n [] = False"
| "scan_spec n (c # cs) =
     (if c = CHR ''{'' then scan_spec (Suc n) cs
      else if c = CHR ''}'' then (if n = 1 then scan_text cs else scan_spec (n - 1) cs)
      else scan_spec n cs)"

definition template_from :: "string \<Rightarrow> error option" where
  "template_from text = (if scan_text text then None else Some ValueError)"

text \<open>
  A generator whose collaborators all answer. The model names its first hypothesis alpha
  and, once the seed lists known concepts, every later one beta.
\<close>

definition steady_generator :: generator where
  "steady_generator =
     \<lparr>first_responder =
        \<lparr>runnable = (\<lambda>l ms tg. Inr (AIMessage [] [draft_call])),
         validator = pydantic_tools_parser (\<lambda>tc. Parsed), schema_json = ''{}''\<rparr>,
      revisor =
        \<lparr>runnable = (\<lambda>l ms tg.
           Inr (AIMessage []
             [revise_call (if hd ms = HumanMessage (seed_content []) then ''alpha'' else ''beta'')
                (JStr ''m1'')])),
         validator = pydantic_tools_parser (\<lambda>tc. Parsed), schema_json = ''{}''\<rparr>,
      retrieval_chain = (\<lambda>l q. Inr (''about '' @ q)),
      similarity_search = (\<lambda>l v. Inr ''[Document 1, Document 2]''),
      chain_with_guardrails = (\<lambda>l q. Inr (JStr ''No restricted topics'')),
      from_messages = template_from,
      llm_short = (\<lambda>l ms. Inr ''Extends Document 1''),
      str_output = concat,
      agent_iterations = 1,
      iterations = 2,
      recursion_limit = 25\<rparr>"

text \<open>The model behind the literature-relation chain fails from its second call on.\<close>

definition broken_generator :: generator where
  "broken_generator =
     steady_generator
       \<lparr>llm_short := (\<lambda>l ms.
          if list_ex is_LlmShort l then Inl (Fault ''model endpoint unavailable'')
          else Inr ''Extends Document 1''),
        iterations := 3\<rparr>"

text \<open>A guarded chain over a policy model: the model's answer as text, or, the model
  failing, the dictionary the guard answers with in its place.\<close>

definition guarded_chain :: "(event list \<Rightarrow> string \<Rightarrow> error + string)
    \<Rightarrow> event list \<Rightarrow> string \<Rightarrow> error + json" where
  "guarded_chain policy l q =
     (case policy l q of
        Inl e \<Rightarrow> Inr (JDict [(''output'', JStr ''internal error'')])
      | Inr t \<Rightarrow> Inr (JStr t))"

text \<open>A policy model that fails from the second check on.\<close>

definition failing_policy :: "event list \<Rightarrow> string \<Rightarrow> error + string" where
  "failing_policy l q =
     (if list_ex is_Guardrails l then Inl (Fault ''policy endpoint unavailable'')
      else Inr ''No restricted topics'')"

definition swallowing_generator :: generator where
  "swallowing_generator =
     steady_generator
       \<lparr>chain_with_guardrails := guarded_chain failing_policy, iterations := 3\<rparr>"



definition fresh :: session where
  "fresh = \<lparr>hypothesisdf_all = [], notnovelhyp = [], events = []\<rparr>"

definition alpha_row :: row where
  "alpha_row =
     [(''Hypotheses short description'', JStr ''alpha''),
      (''Generated Hypotheses'', JStr ''alpha in full''),
      (''Novelty'', JStr ''7''), (''What is not novel'', JStr ''n1''),
      (''Missing'', JStr ''m1''), (''Superfluous'', JStr ''s1''),
      (''Flag'', JStr ''sound''), (''References'', JStr ''PMID 1''),
      (''Biohazard'', JStr ''No restricted topics''),
      (''Relations to literature'', JStr ''Extends Document 1'')]"

definition beta_row :: row where
  "beta_row =
     [(''Hypotheses short description'', JStr ''beta''),
      (''Generated Hypotheses'', JStr ''beta in full''),
      (''Novelty'', JStr ''7''), (''What is not novel'', JStr ''n1''),
      (''Missing'', JStr ''m1''), (''Superfluous'', JStr ''s1''),
      (''Flag'', JStr ''sound''), (''References'', JStr ''PMID 1''),
      (''Biohazard'', JStr ''No restricted topics''),
      (''Relations to literature'', JStr ''Extends Document 1'')]"

text \<open>The row beta when the guarded chain answered with a dictionary.\<close>

definition unjudged_beta_row :: row where
  "unjudged_beta_row =
     [(''Hypotheses short description'', JStr ''beta''),
      (''Generated Hypotheses'', JStr ''beta in full''),
      (''Novelty'', JStr ''7''), (''What is not novel'', JStr ''n1''),
      (''Missing'', JStr ''m1''), (''Superfluous'', JStr ''s1''),
      (''Flag'', JStr ''sound''), (''References'', JStr ''PMID 1''),
      (''Biohazard'', JNull),
      (''Relations to literature'', JStr ''Extends Document 1'')]"

text \<open>The record of one completed iteration of the steady generator, seeded with the
  known concepts \<open>known\<close> and producing the hypothesis \<open>name\<close>.\<close>

definition steady_events :: "string \<Rightarrow> string \<Rightarrow> event list" where
  "steady_events known name =
     [Write (HumanMessage (seed_content known)),
      Invoke [HumanMessage (seed_content known)] [''attempt:0''] (Inr (AIMessage [] [draft_call])),
      Write (AIMessage [] [draft_call]),
      Retrieval ''parp'' (Inr ''about parp''),
      Retrieval ''brca'' (Inr ''about brca''),
      Write (ToolMessage ''about parpabout brca'' ''call_d''),
      Invoke [HumanMessage (seed_content known), AIMessage [] [draft_call],
              ToolMessage ''about parpabout brca'' ''call_d'']
        [''attempt:0''] (Inr (AIMessage [] [revise_call name (JStr ''m1'')])),
      Write (AIMessage [] [revise_call name (JStr ''m1'')]),
      SimilaritySearch (JStr name) (Inr ''[Document 1, Document 2]''),
      Guardrails (''Does the following contain any restricted topics?: '' @ name @ '' in full'')
        (Inr (JStr ''No restricted topics'')),
      LlmShort (prompt ''[Document 1, Document 2]'') (Inr ''Extends Document 1'')]"

text \<open>The record of an iteration producing beta in which the guarded chain answered with
  the dictionary.\<close>

definition swallowed_events :: "string \<Rightarrow> event list" where
  "swallowed_events known =
     take 9 (steady_events known ''beta'') @
     [Guardrails ''Does the following contain any restricted topics?: beta in full''
        (Inr (JDict [(''output'', JStr ''internal error'')])),
      LlmShort (prompt ''[Document 1, Document 2]'') (Inr ''Extends Document 1'')]"

definition after_alpha :: session where
  "after_alpha =
     \<lparr>hypothesisdf_all = [alpha_row], notnovelhyp = ''alpha'', events = steady_events [] ''alpha''\<rparr>"

section \<open>The transition function\<close>

lemma count_trailing_takeWhile:
  "count_trailing ms i =
     i + int (length (takeWhile (\<lambda>m. mtype m = ''ai'' \<or> mtype m = ''tool'') ms))"
  by (induction ms arbitrary: i) auto

lemma get_num_iterations_run: "get_num_iterations state = int (trailing_run_length state)"
  by (simp add: get_num_iterations_def trailing_run_length_def count_trailing_takeWhile)

text \<open>
  C2. After the revise node the transition is to the end exactly when the number of
  consecutive trailing ai or tool messages is strictly greater than the configured
  number of agent iterations. A history whose trailing run has length N continues to
  execute_tools under the setting N, and ends under the setting N - 1 (that is, a run of
  length N + 1 ends under the setting N).
\<close>

theorem event_loop_terminal_iff:
  "(event_loop n history = END) = (n < int (trailing_run_length history))
   \<and> event_loop (int (trailing_run_length history)) history = execute_tools
   \<and> event_loop (int (trailing_run_length history) - 1) history = END"
  by (simp add: event_loop_def get_num_iterations_run)

section \<open>ResponderWithRetries: the retry loop\<close>

lemma respond_loop_step:
  assumes "respond_loop rs (a # as) r h st l = (res, h', l')"
  obtains
    (stop) ms tg e where "l' = l @ [Invoke ms tg (Inl e)]" "h' = h" "res = Inl e"
  | (parsed) ms tg m where "l' = l @ [Invoke ms tg (Inr m)]" "h' = h" "res = Inr m" "validator rs m = Parsed"
  | (raised) ms tg m e where "l' = l @ [Invoke ms tg (Inr m)]" "h' = h" "res = Inl e" "validator rs m = Raised e"
  | (no_attr) ms tg m x e where "l' = l @ [Invoke ms tg (Inr m)]" "h' = h" "res = Inl e"
      "validator rs m = ValidationError x" "tool_calls m = Inl e"
  | (no_call) ms tg m x where "l' = l @ [Invoke ms tg (Inr m)]" "h' = h" "res = Inl IndexError"
      "validator rs m = ValidationError x" "tool_calls m = Inr []"
  | (retry) ms tg m x tc tcs where
      "validator rs m = ValidationError x" "tool_calls m = Inr (tc # tcs)"
      "respond_loop rs as (Some m)
         (h @ [h ! st @ [m, ToolMessage (corrective_content x (schema_json rs)) (call_id tc)]])
         (length h) (l @ [Invoke ms tg (Inr m)]) = (res, h', l')"
proof -
  let ?ms = "h ! st" and ?tg = "[''attempt:'' @ str_nat a]"
  show ?thesis
  proof (cases "runnable rs l ?ms ?tg")
    case (Inl e)
    with assms have "l' = l @ [Invoke ?ms ?tg (Inl e)]" "h' = h" "res = Inl e"
      by (auto simp: Let_def)
    then show ?thesis by (rule stop)
  next
    case (Inr m)
    show ?thesis
    proof (cases "validator rs m")
      case Parsed
      with Inr assms have "l' = l @ [Invoke ?ms ?tg (Inr m)]" "h' = h" "res = Inr m"
        by (auto simp: Let_def)
      then show ?thesis using Parsed by (rule parsed)
    next
      case (Raised e)
      with Inr assms have "l' = l @ [Invoke ?ms ?tg (Inr m)]" "h' = h" "res = Inl e"
        by (auto simp: Let_def)
      then show ?thesis using Raised by (rule raised)
    next
      case (ValidationError x)
      show ?thesis
      proof (cases "tool_calls m")
        case (Inl e)
        with ValidationError Inr assms
        have "l' = l @ [Invoke ?ms ?tg (Inr m)]" "h' = h" "res = Inl e"
          by (auto simp: Let_def)
        then show ?thesis using ValidationError Inl by (rule no_attr)
      next
        case calls: (Inr tcs)
        show ?thesis
        proof (cases tcs)
          case Nil
          with calls ValidationError Inr assms
          have "l' = l @ [Invoke ?ms ?tg (Inr m)]" "h' = h" "res = Inl IndexError"
            by (auto simp: Let_def)
          then show ?thesis using ValidationError calls[unfolded Nil] by (rule no_call)
        next
          case (Cons tc rest)
          with calls ValidationError Inr assms
          have "respond_loop rs as (Some m)
                  (h @ [h ! st @ [m, ToolMessage (corrective_content x (schema_json rs)) (call_id tc)]])
                  (length h) (l @ [Invoke ?ms ?tg (Inr m)]) = (res, h', l')"
            by (simp add: Let_def new_list_def)
          with ValidationError calls[unfolded Cons] show ?thesis by (rule retry)
        qed
      qed
    qed
  qed
qed

lemma respond_loop_extends:
  "respond_loop rs as r h st l = (res, h', l') \<Longrightarrow>
     \<exists>new hn. l' = l @ new \<and> length new \<le> length as \<and> (\<forall>e\<in>set new. is_Invoke e) \<and> h' = h @ hn"
proof (induction as arbitrary: r h st l)
  case Nil
  then show ?case by (auto split: option.splits)
next
  case (Cons a as)
  from Cons.prems show ?case
  proof (cases rule: respond_loop_step)
    case (retry ms tg m x tc tcs)
    from Cons.IH[OF retry(3)] show ?thesis by auto
  qed auto
qed

lemma respond_loop_first_parsed:
  "respond_loop rs as r h st l = (res, h', l') \<Longrightarrow>
   k < length (drop (length l) l') \<Longrightarrow>
   drop (length l) l' ! k = Invoke ms tg (Inr m) \<Longrightarrow>
   validator rs m = Parsed \<Longrightarrow>
   res = Inr m \<and> length l' = length l + Suc k"
proof (induction as arbitrary: r h st l k)
  case Nil
  then show ?case by (auto split: option.splits)
next
  case (Cons a as)
  from Cons.prems(1) show ?case
  proof (cases rule: respond_loop_step)
    case (retry ms' tg' m' x tc tcs)
    from respond_loop_extends[OF retry(3)] obtain new where
      new: "l' = (l @ [Invoke ms' tg' (Inr m')]) @ new" by blast
    show ?thesis
    proof (cases k)
      case 0
      with Cons.prems new retry show ?thesis by simp
    next
      case (Suc j)
      with Cons.prems new have
        "j < length (drop (length (l @ [Invoke ms' tg' (Inr m')])) l')"
        "drop (length (l @ [Invoke ms' tg' (Inr m')])) l' ! j = Invoke ms tg (Inr m)"
        by simp_all
      from Cons.IH[OF retry(3) this Cons.prems(4)] Suc show ?thesis by simp
    qed
  qed (use Cons.prems(2-) in auto)
qed

lemma respond_loop_no_call:
  "respond_loop rs as r h st l = (res, h', l') \<Longrightarrow>
   Invoke ms tg (Inr (AIMessage c [])) \<in> set (drop (length l) l') \<Longrightarrow>
   validator rs (AIMessage c []) = ValidationError x \<Longrightarrow>
   res = Inl IndexError \<and> last l' = Invoke ms tg (Inr (AIMessage c []))"
proof (induction as arbitrary: r h st l)
  case Nil
  then show ?case by (auto split: option.splits)
next
  case (Cons a as)
  from Cons.prems(1) show ?case
  proof (cases rule: respond_loop_step)
    case (retry ms' tg' m' x' tc tcs)
    from respond_loop_extends[OF retry(3)] obtain new where
      new: "l' = (l @ [Invoke ms' tg' (Inr m')]) @ new" by blast
    with Cons.prems(2) retry(1,2) Cons.prems(3)
    have "Invoke ms tg (Inr (AIMessage c [])) \<in> set (drop (length (l @ [Invoke ms' tg' (Inr m')])) l')"
      by auto
    from Cons.IH[OF retry(3) this Cons.prems(3)] show ?thesis .
  qed (use Cons.prems(2-) in auto)
qed






lemma rejecting_run:
  "respond rejecting_responder [[HumanMessage ''q'']] 0 [] =
     (Inr (AIMessage ''attempt:2'' [bad_call]),
      [[HumanMessage ''q''],
       [HumanMessage ''q'', AIMessage ''attempt:0'' [bad_call],
        ToolMessage (corrective_content ''1 validation error'' ''{}'') ''call_1''],
       [HumanMessage ''q'', AIMessage ''attempt:0'' [bad_call],
        ToolMessage (corrective_content ''1 validation error'' ''{}'') ''call_1'',
        AIMessage ''attempt:1'' [bad_call],
        ToolMessage (corrective_content ''1 validation error'' ''{}'') ''call_1''],
       [HumanMessage ''q'', AIMessage ''attempt:0'' [bad_call],
        ToolMessage (corrective_content ''1 validation error'' ''{}'') ''call_1'',
        AIMessage ''attempt:1'' [bad_call],
        ToolMessage (corrective_content ''1 validation error'' ''{}'') ''call_1'',
        AIMessage ''attempt:2'' [bad_call],
        ToolMessage (corrective_content ''1 validation error'' ''{}'') ''call_1'']],
      [Invoke [HumanMessage ''q''] [''attempt:0''] (Inr (AIMessage ''attempt:0'' [bad_call])),
       Invoke [HumanMessage ''q'', AIMessage ''attempt:0'' [bad_call],
               ToolMessage (corrective_content ''1 validation error'' ''{}'') ''call_1'']
         [''attempt:1''] (Inr (AIMessage ''attempt:1'' [bad_call])),
       Invoke [HumanMessage ''q'', AIMessage ''attempt:0'' [bad_call],
               ToolMessage (corrective_content ''1 validation error'' ''{}'') ''call_1'',
               AIMessage ''attempt:1'' [bad_call],
               ToolMessage (corrective_content ''1 validation error'' ''{}'') ''call_1'']
         [''attempt:2''] (Inr (AIMessage ''attempt:2'' [bad_call]))])"
  by (simp add: respond_def rejecting_responder_def pydantic_tools_parser_def Let_def new_list_def
        str_nat.simps digit_def bad_call_def)


text \<open>
  C7. If the k-th invocation of a call to \<open>respond\<close> took place and its response passes
  validation, that response is returned as it is, exactly k invocations were made
  (k is at most 3), and nothing else was added to the record.
\<close>

theorem respond_early_success:
  assumes "respond rs h state l = (res, h', l')"
      and "1 \<le> k" and "k \<le> length (drop (length l) l')"
      and "drop (length l) l' ! (k - 1) = Invoke ms tg (Inr m)"
      and "validator rs m = Parsed"
  shows "res = Inr m \<and> length l' = length l + k \<and> k \<le> 3
         \<and> (\<forall>e\<in>set (drop (length l) l'). is_Invoke e)"
proof -
  from assms(1) have run: "respond_loop rs [0, 1, 2] None h state l = (res, h', l')"
    by (simp add: respond_def)
  from assms(2,3) have "k - 1 < length (drop (length l) l')" by simp
  from respond_loop_first_parsed[OF run this assms(4,5)] assms(2)
  have "res = Inr m" "length l' = length l + k" by simp_all
  moreover from respond_loop_extends[OF run]
  have "length l' \<le> length l + 3" "\<forall>e\<in>set (drop (length l) l'). is_Invoke e" by auto
  ultimately show ?thesis by simp
qed

lemma second_try_run:
  "respond second_try_responder [[HumanMessage ''q'']] 0 [] =
     (Inr (AIMessage ''second'' [good_call]),
      [[HumanMessage ''q''],
       [HumanMessage ''q'', AIMessage ''other'' [bad_call],
        ToolMessage (corrective_content ''1 validation error'' ''{}'') ''call_1'']],
      [Invoke [HumanMessage ''q''] [''attempt:0''] (Inr (AIMessage ''other'' [bad_call])),
       Invoke [HumanMessage ''q'', AIMessage ''other'' [bad_call],
               ToolMessage (corrective_content ''1 validation error'' ''{}'') ''call_1'']
         [''attempt:1''] (Inr (AIMessage ''second'' [good_call]))])"
  by (simp add: respond_def second_try_responder_def pydantic_tools_parser_def Let_def new_list_def
        str_nat.simps digit_def bad_call_def good_call_def)

text \<open>A stub whose second response is the first valid one: two invocations, the second
  response returned.\<close>

theorem respond_early_success_witness:
  "fst (respond second_try_responder [[HumanMessage ''q'']] 0 []) = Inr (AIMessage ''second'' [good_call])
   \<and> length (snd (snd (respond second_try_responder [[HumanMessage ''q'']] 0 []))) = 2
   \<and> response_of (snd (snd (respond second_try_responder [[HumanMessage ''q'']] 0 [])) ! 1) =
        Some (AIMessage ''second'' [good_call])
   \<and> validator second_try_responder (AIMessage ''second'' [good_call]) = Parsed"
proof -
  have ok: "validator second_try_responder (AIMessage ''second'' [good_call]) = Parsed"
    by (simp add: second_try_responder_def pydantic_tools_parser_def)
  from respond_early_success[OF second_try_run _ _ _ ok, of 2] show ?thesis
    unfolding second_try_run by (simp add: ok)
qed

text \<open>
  C9. \<open>respond\<close> leaves the caller's list as it was: every list object that existed before
  the call, the one passed in among them, is unchanged after it; the corrective messages
  go into new objects. The record is only extended, and only by model invocations.
\<close>

theorem respond_leaves_history:
  assumes "respond rs h state l = (res, h', l')" and "state < length h"
  shows "h' ! state = h ! state \<and> take (length h) h' = h \<and> take (length l) l' = l
         \<and> (\<forall>e\<in>set (drop (length l) l'). is_Invoke e)"
proof -
  from assms(1) have run: "respond_loop rs [0, 1, 2] None h state l = (res, h', l')"
    by (simp add: respond_def)
  from respond_loop_extends[OF run] assms(2) show ?thesis
    by (auto simp: nth_append)
qed

text \<open>Three rejected attempts allocate three new lists; the caller's is untouched.\<close>

theorem respond_leaves_history_witness:
  "snd (respond rejecting_responder [[HumanMessage ''q'']] 0 []) =
     (fst (snd (respond rejecting_responder [[HumanMessage ''q'']] 0 [])),
      snd (snd (respond rejecting_responder [[HumanMessage ''q'']] 0 [])))
   \<and> fst (snd (respond rejecting_responder [[HumanMessage ''q'']] 0 [])) ! 0 = [HumanMessage ''q'']
   \<and> length (fst (snd (respond rejecting_responder [[HumanMessage ''q'']] 0 []))) = 4
   \<and> list_all is_Invoke (snd (snd (respond rejecting_responder [[HumanMessage ''q'']] 0 [])))"
proof -
  have valid: "(0::nat) < length [[HumanMessage ''q'']]" by simp
  from respond_leaves_history[OF rejecting_run valid] show ?thesis
    unfolding rejecting_run by simp
qed







section \<open>The tool-execution function: order and failure\<close>

lemma retrievals_Cons: "retrievals (q # qs) (r # rs) = Retrieval q (Inr r) # retrievals qs rs"
  by (simp add: retrievals_def)

lemma retrievals_Nil: "retrievals [] rs = []" "retrievals qs [] = []"
  by (simp_all add: retrievals_def)

lemma run_queries_loop_ok:
  "run_queries_loop rc qs acc l = (Inr results, l') \<Longrightarrow>
   \<exists>new. results = acc @ new \<and> length new = length qs \<and> l' = l @ retrievals qs new
     \<and> (\<forall>i<length qs. rc (l @ retrievals (take i qs) (take i new)) (qs ! i) = Inr (new ! i))"
proof (induction qs arbitrary: acc l)
  case Nil
  then show ?case by (simp add: retrievals_Nil)
next
  case (Cons q qs)
  from Cons.prems obtain r where r: "rc l q = Inr r"
    and rest: "run_queries_loop rc qs (acc @ [r]) (l @ [Retrieval q (Inr r)]) = (Inr results, l')"
    by (auto simp: Let_def split: sum.splits)
  from Cons.IH[OF rest] obtain new where new: "results = (acc @ [r]) @ new" "length new = length qs"
    "l' = (l @ [Retrieval q (Inr r)]) @ retrievals qs new"
    "\<forall>i<length qs. rc ((l @ [Retrieval q (Inr r)]) @ retrievals (take i qs) (take i new)) (qs ! i) = Inr (new ! i)"
    by blast
  have "\<forall>i<length (q # qs). rc (l @ retrievals (take i (q # qs)) (take i (r # new))) ((q # qs) ! i) = Inr ((r # new) ! i)"
  proof (intro allI impI)
    fix i assume "i < length (q # qs)"
    then show "rc (l @ retrievals (take i (q # qs)) (take i (r # new))) ((q # qs) ! i) = Inr ((r # new) ! i)"
      using r new(4) by (cases i) (simp_all add: retrievals_Nil retrievals_Cons)
  qed
  with new(1-3) show ?case
    by (intro exI[of _ "r # new"]) (simp add: retrievals_Cons)
qed

lemma run_queries_loop_error:
  "run_queries_loop rc qs acc l = (Inl e, l') \<Longrightarrow>
   \<exists>i<length qs. \<exists>answered. length answered = i
     \<and> (\<forall>j<i. rc (l @ retrievals (take j qs) (take j answered)) (qs ! j) = Inr (answered ! j))
     \<and> rc (l @ retrievals (take i qs) answered) (qs ! i) = Inl e
     \<and> l' = l @ retrievals (take i qs) answered @ [Retrieval (qs ! i) (Inl e)]"
proof (induction qs arbitrary: acc l)
  case Nil
  then show ?case by simp
next
  case (Cons q qs)
  show ?case
  proof (cases "rc l q")
    case (Inl e')
    with Cons.prems have "e' = e" "l' = l @ [Retrieval q (Inl e)]" by (auto simp: Let_def)
    with Inl show ?thesis
      by (intro exI[of _ 0]) (simp add: retrievals_Nil)
  next
    case (Inr r)
    with Cons.prems
    have rest: "run_queries_loop rc qs (acc @ [r]) (l @ [Retrieval q (Inr r)]) = (Inl e, l')"
      by (simp add: Let_def)
    from Cons.IH[OF rest] obtain i answered where ia: "i < length qs" "length answered = i"
      "\<forall>j<i. rc ((l @ [Retrieval q (Inr r)]) @ retrievals (take j qs) (take j answered)) (qs ! j) = Inr (answered ! j)"
      "rc ((l @ [Retrieval q (Inr r)]) @ retrievals (take i qs) answered) (qs ! i) = Inl e"
      "l' = (l @ [Retrieval q (Inr r)]) @ retrievals (take i qs) answered @ [Retrieval (qs ! i) (Inl e)]"
      by blast
    have "\<forall>j<Suc i. rc (l @ retrievals (take j (q # qs)) (take j (r # answered))) ((q # qs) ! j) = Inr ((r # answered) ! j)"
    proof (intro allI impI)
      fix j assume "j < Suc i"
      then show "rc (l @ retrievals (take j (q # qs)) (take j (r # answered))) ((q # qs) ! j) = Inr ((r # answered) ! j)"
        using Inr ia(3) by (cases j) (simp_all add: retrievals_Nil retrievals_Cons)
    qed
    with ia show ?thesis
      by (intro exI[of _ "Suc i"] conjI exI[of _ "r # answered"]) (simp_all add: retrievals_Cons)
  qed
qed

text \<open>
  C8. \<^verbatim>\<open>run_queries\<close> puts the queries to the retriever one after the other in the order
  of the list, repeated queries included. When it returns, the results are as many as
  the queries and the i-th result is what the retriever answered to the i-th query, asked
  after the i - 1 before it. When the retriever fails on a query, that failure is the
  outcome, and no later query is asked.
\<close>

theorem run_queries_in_order:
  "case run_queries rc qs l of
     (Inr results, l') \<Rightarrow>
        length results = length qs
        \<and> l' = l @ retrievals qs results
        \<and> (\<forall>i<length qs. rc (l @ retrievals (take i qs) (take i results)) (qs ! i) = Inr (results ! i))
   | (Inl e, l') \<Rightarrow>
        (\<exists>i<length qs. \<exists>answered. length answered = i
           \<and> (\<forall>j<i. rc (l @ retrievals (take j qs) (take j answered)) (qs ! j) = Inr (answered ! j))
           \<and> rc (l @ retrievals (take i qs) answered) (qs ! i) = Inl e
           \<and> l' = l @ retrievals (take i qs) answered @ [Retrieval (qs ! i) (Inl e)])"
proof (cases "run_queries rc qs l")
  case (Pair res l')
  show ?thesis
  proof (cases res)
    case (Inl e)
    with Pair have "run_queries_loop rc qs [] l = (Inl e, l')" by (simp add: run_queries_def)
    from run_queries_loop_error[OF this] show ?thesis using Pair Inl by simp
  next
    case (Inr results)
    with Pair have "run_queries_loop rc qs [] l = (Inr results, l')" by (simp add: run_queries_def)
    from run_queries_loop_ok[OF this] show ?thesis using Pair Inr by auto
  qed
qed

lemma numbering_ok:
  "run_queries numbering_retriever [''a'', ''a'', ''b''] [] =
     (Inr [''a#0'', ''a#1'', ''b#2''],
      [Retrieval ''a'' (Inr ''a#0''), Retrieval ''a'' (Inr ''a#1''), Retrieval ''b'' (Inr ''b#2'')])"
  by (simp add: run_queries_def numbering_retriever_def Let_def str_nat.simps digit_def)

lemma numbering_down:
  "run_queries numbering_retriever [''a'', ''down'', ''b''] [] =
     (Inl (Fault ''retriever unavailable''),
      [Retrieval ''a'' (Inr ''a#0''), Retrieval ''down'' (Inl (Fault ''retriever unavailable''))])"
  by (simp add: run_queries_def numbering_retriever_def Let_def str_nat.simps digit_def)

text \<open>The same query twice is asked twice; a failing second query ends the run.\<close>

theorem run_queries_in_order_witness:
  "run_queries numbering_retriever [''a'', ''a'', ''b''] [] =
     (Inr [''a#0'', ''a#1'', ''b#2''],
      [Retrieval ''a'' (Inr ''a#0''), Retrieval ''a'' (Inr ''a#1''), Retrieval ''b'' (Inr ''b#2'')])
   \<and> numbering_retriever [Retrieval ''a'' (Inr ''a#0'')] ''a'' = Inr ''a#1''
   \<and> run_queries numbering_retriever [''a'', ''down'', ''b''] [] =
     (Inl (Fault ''retriever unavailable''),
      [Retrieval ''a'' (Inr ''a#0''), Retrieval ''down'' (Inl (Fault ''retriever unavailable''))])"
proof -
  from run_queries_in_order[where rc = numbering_retriever and qs = "[''a'', ''a'', ''b'']" and l = "[]"]
  have each: "\<forall>i<length [''a'', ''a'', ''b''].
      numbering_retriever ([] @ retrievals (take i [''a'', ''a'', ''b'']) (take i [''a#0'', ''a#1'', ''b#2'']))
        ([''a'', ''a'', ''b''] ! i) = Inr ([''a#0'', ''a#1'', ''b#2''] ! i)"
    unfolding numbering_ok by simp
  from each[rule_format, of 1]
  have "numbering_retriever [Retrieval ''a'' (Inr ''a#0'')] ''a'' = Inr ''a#1''"
    by (simp add: retrievals_def)
  with numbering_ok numbering_down show ?thesis by simp
qed

section \<open>Failures and the record, layer by layer\<close>

declare respond_loop.simps [simp del]

lemma respond_loop_clean:
  "respond_loop rs as r h st l = (Inr m, h', l') \<Longrightarrow> \<forall>e\<in>set (drop (length l) l'). \<not> failed e"
proof (induction as arbitrary: r h st l)
  case Nil
  then show ?case by (auto simp: respond_loop.simps split: option.splits)
next
  case (Cons a as)
  from Cons.prems show ?case
  proof (cases rule: respond_loop_step)
    case (retry ms tg m' x tc tcs)
    from respond_loop_extends[OF retry(3)] obtain new where
      new: "l' = (l @ [Invoke ms tg (Inr m')]) @ new" by blast
    from Cons.IH[OF retry(3)] new show ?thesis by auto
  qed auto
qed

lemma respond_node_log:
  assumes "respond_node rs state l = (res, l')"
  shows "\<exists>new. l' = l @ new \<and> (\<forall>m. res = Inr m \<longrightarrow> (\<forall>e\<in>set new. \<not> failed e))"
proof -
  obtain h' where run: "respond_loop rs [0, 1, 2] None [state] 0 l = (res, h', l')"
    using assms by (auto simp: respond_node_def respond_def split: prod.splits)
  from respond_loop_extends[OF run] obtain new where new: "l' = l @ new" by blast
  show ?thesis
  proof (cases res)
    case (Inl e)
    with new show ?thesis by simp
  next
    case (Inr m)
    with run respond_loop_clean[of rs "[0,1,2]" None "[state]" 0 l m h' l'] new show ?thesis by auto
  qed
qed

lemma run_queries_log:
  assumes "run_queries rc qs l = (res, l')"
  shows "\<exists>new. l' = l @ new \<and> (\<forall>m. res = Inr m \<longrightarrow> (\<forall>e\<in>set new. \<not> failed e))"
proof (cases res)
  case (Inl e)
  with assms have "run_queries_loop rc qs [] l = (Inl e, l')" by (simp add: run_queries_def)
  from run_queries_loop_error[OF this] Inl show ?thesis by auto
next
  case (Inr rs)
  with assms have "run_queries_loop rc qs [] l = (Inr rs, l')" by (simp add: run_queries_def)
  from run_queries_loop_ok[OF this] have "l' = l @ retrievals qs rs" by auto
  with Inr show ?thesis by (auto simp: retrievals_def)
qed

lemma run_one_log:
  assumes "run_one g call l = (res, l')"
  shows "\<exists>new. l' = l @ new \<and> (\<forall>m. res = Inr m \<longrightarrow> (\<forall>e\<in>set new. \<not> failed e))"
proof (cases "call_name call \<notin> {''AnswerQuestion'', ''ReviseAnswer''}")
  case True
  with assms show ?thesis by simp
next
  case named: False
  show ?thesis
  proof (cases "getitem (call_args call) ''search_queries''")
    case (Inl e)
    with named assms show ?thesis by simp
  next
    case (Inr v)
    show ?thesis
    proof (cases "\<exists>js qs. v = JList js \<and> as_str_list js = Inr qs")
      case False
      with Inr named assms have "l' = l" "isl res"
        by (auto split: json.splits sum.splits)
      then show ?thesis by (cases res) auto
    next
      case True
      then obtain js qs where v: "v = JList js" "as_str_list js = Inr qs" by blast
      obtain r l2 where rq: "run_queries (retrieval_chain g) qs l = (r, l2)" by (cases "run_queries (retrieval_chain g) qs l")
      from run_queries_log[OF rq] obtain new where new: "l2 = l @ new" "\<forall>m. r = Inr m \<longrightarrow> (\<forall>e\<in>set new. \<not> failed e)" by blast
      from assms named Inr v rq have "l' = l2" "isl res = isl r"
        by (auto split: sum.splits)
      with new show ?thesis by (cases res; cases r) auto
    qed
  qed
qed

declare run_one.simps [simp del]

lemma run_calls_log:
  "run_calls g calls l = (res, l') \<Longrightarrow>
     \<exists>new. l' = l @ new \<and> (\<forall>m. res = Inr m \<longrightarrow> (\<forall>e\<in>set new. \<not> failed e))"
proof (induction calls arbitrary: l res l')
  case Nil
  then show ?case by auto
next
  case (Cons c cs)
  obtain r1 l1 where one: "run_one g c l = (r1, l1)" by (cases "run_one g c l")
  from run_one_log[OF one] obtain new1 where new1: "l1 = l @ new1"
    "\<forall>m. r1 = Inr m \<longrightarrow> (\<forall>e\<in>set new1. \<not> failed e)" by blast
  show ?case
  proof (cases r1)
    case (Inl e)
    with Cons.prems one new1 show ?thesis by auto
  next
    case (Inr m)
    obtain r2 l2 where rest: "run_calls g cs l1 = (r2, l2)" by (cases "run_calls g cs l1")
    from Cons.IH[OF rest] obtain new2 where new2: "l2 = l1 @ new2"
      "\<forall>m. r2 = Inr m \<longrightarrow> (\<forall>e\<in>set new2. \<not> failed e)" by blast
    from Cons.prems one Inr rest have "l' = l2" "isl res = isl r2" by (auto split: sum.splits)
    with new1 new2 Inr show ?thesis by (cases res; cases r2) auto
  qed
qed

lemma tool_node_log:
  assumes "tool_node g state l = (res, l')"
  shows "\<exists>new. l' = l @ new \<and> (\<forall>m. res = Inr m \<longrightarrow> (\<forall>e\<in>set new. \<not> failed e))"
  using assms run_calls_log[of g _ l res l']
  by (auto simp: tool_node_def split: sum.splits)

lemma run_node_log:
  assumes "run_node g n state l = (res, l')"
  shows "\<exists>new. l' = l @ new \<and> (\<forall>m. res = Inr m \<longrightarrow> (\<forall>e\<in>set new. \<not> failed e))"
proof (cases n)
  case draft
  obtain r l1 where a: "respond_node (first_responder g) state l = (r, l1)"
    by (cases "respond_node (first_responder g) state l")
  from respond_node_log[OF a] assms draft a show ?thesis by (cases r) auto
next
  case execute_tools_node
  obtain r l1 where a: "tool_node g state l = (r, l1)" by (cases "tool_node g state l")
  from tool_node_log[OF a] assms execute_tools_node a show ?thesis by (cases r) auto
next
  case revise
  obtain r l1 where a: "respond_node (revisor g) state l = (r, l1)"
    by (cases "respond_node (revisor g) state l")
  from respond_node_log[OF a] assms revise a show ?thesis by (cases r) auto
qed

declare run_node.simps [simp del]

lemma stream_steps_log:
  "stream_steps g fuel n step l = (res, l') \<Longrightarrow>
     \<exists>new. l' = l @ new \<and> (\<forall>m. res = Inr m \<longrightarrow> (\<forall>e\<in>set new. \<not> failed e))"
proof (induction g fuel n step l rule: stream_steps.induct)
  case (1 g fuel step l)
  then show ?case by auto
next
  case (2 g n step l)
  then show ?case by auto
next
  case (3 g fuel n step l)
  obtain r l1 where a: "run_node g n step l = (r, l1)" by (cases "run_node g n step l")
  from run_node_log[OF a] obtain new1 where new1: "l1 = l @ new1"
    "\<forall>m. r = Inr m \<longrightarrow> (\<forall>e\<in>set new1. \<not> failed e)" by blast
  show ?case
  proof (cases r)
    case (Inl e)
    with "3.prems" a new1 show ?thesis by auto
  next
    case (Inr p)
    obtain step' nxt where p: "p = (step', nxt)" by (cases p)
    with "3.prems" a Inr
    have rest: "stream_steps g fuel nxt step' (l1 @ [Write (last step')]) = (res, l')" by simp
    from Inr p have r: "r = Inr (step', nxt)" by simp
    from "3.IH"[OF a[symmetric] r refl rest]
    obtain new2 where new2: "l' = (l1 @ [Write (last step')]) @ new2"
      "\<forall>m. res = Inr m \<longrightarrow> (\<forall>e\<in>set new2. \<not> failed e)" by blast
    with new1 Inr show ?thesis by auto
  qed
qed

lemma graph_stream_log:
  assumes "graph_stream g input l = (res, l')"
  shows "\<exists>new. l' = l @ Write (last input) # new
           \<and> (\<forall>m. res = Inr m \<longrightarrow> (\<forall>e\<in>set new. \<not> failed e))"
  using stream_steps_log[OF assms[unfolded graph_stream_def]] by auto

lemma bind_Inr: "bind x f = Inr y \<Longrightarrow> \<exists>v. x = Inr v \<and> f v = Inr y"
  by (cases x) (simp_all add: bind_def)

lemma str_add_Inr: "str_add a v = Inr y \<Longrightarrow> \<exists>t. v = JStr t \<and> y = a @ t"
  by (cases v) simp_all

lemma extracted_fields_Inr:
  assumes "extracted_fields step = Inr cols"
  shows "\<exists>v1 v2 v3 v4 v5 v6 v7 v8.
           reflection_field step ''shortname'' = Inr v1 \<and> answer_field step = Inr v2
         \<and> reflection_field step ''noveltyscore'' = Inr v3
         \<and> reflection_field step ''notnovel'' = Inr v4
         \<and> reflection_field step ''missing'' = Inr v5
         \<and> reflection_field step ''superfluous'' = Inr v6
         \<and> reflection_field step ''flag'' = Inr v7
         \<and> reflection_field step ''references_field'' = Inr v8
         \<and> cols = [(''Hypotheses short description'', v1), (''Generated Hypotheses'', v2),
                    (''Novelty'', v3), (''What is not novel'', v4), (''Missing'', v5),
                    (''Superfluous'', v6), (''Flag'', v7), (''References'', v8)]"
  using assms by (auto simp: extracted_fields_def bind_def split: sum.splits)

lemma make_row_Inr:
  assumes "make_row g step papers l = (Inr r, l')"
  shows "\<exists>cols a bio rel.
           extracted_fields step = Inr cols \<and> answer_field step = Inr (JStr a)
         \<and> chain_with_guardrails g l (''Does the following contain any restricted topics?: '' @ a) = Inr bio
         \<and> llm_short g (l @ [Guardrails (''Does the following contain any restricted topics?: '' @ a) (Inr bio)])
              (prompt papers) = Inr rel
         \<and> data_frame (cols @ [(''Biohazard'', bio), (''Relations to literature'', JStr rel)]) = Inr r
         \<and> l' = l @ [Guardrails (''Does the following contain any restricted topics?: '' @ a) (Inr bio),
                      LlmShort (prompt papers) (Inr rel)]"
proof -
  from assms obtain cols where cols: "extracted_fields step = Inr cols"
    by (cases "extracted_fields step") (auto simp: make_row_def)
  from assms cols obtain q where q: "bind (answer_field step)
      (str_add ''Does the following contain any restricted topics?: '') = Inr q"
    by (cases "bind (answer_field step) (str_add ''Does the following contain any restricted topics?: '')")
       (auto simp: make_row_def)
  from bind_Inr[OF q] str_add_Inr obtain a where a: "answer_field step = Inr (JStr a)"
    "q = ''Does the following contain any restricted topics?: '' @ a"
    by blast
  from assms cols q obtain bio where bio: "chain_with_guardrails g l q = Inr bio"
    by (cases "chain_with_guardrails g l q") (auto simp: make_row_def Let_def)
  from assms cols q bio obtain rel where rel: "llm_short g (l @ [Guardrails q (Inr bio)]) (prompt papers) = Inr rel"
    by (cases "llm_short g (l @ [Guardrails q (Inr bio)]) (prompt papers)") (auto simp: make_row_def Let_def)
  from assms cols q bio rel
  have "data_frame (cols @ [(''Biohazard'', bio), (''Relations to literature'', JStr rel)]) = Inr r"
    "l' = l @ [Guardrails q (Inr bio), LlmShort (prompt papers) (Inr rel)]"
    by (auto simp: make_row_def Let_def)
  with cols a bio rel show ?thesis by blast
qed

lemma make_row_log:
  assumes "make_row g step papers l = (res, l')"
  shows "\<exists>new. l' = l @ new"
  using assms by (auto simp: make_row_def Let_def split: sum.splits)

lemma hypothesis_cycle_cases:
  assumes "hypothesis_cycle g s = (r, s')"
  obtains
    (completed) step l1 sn papers hypothesisdf l3 where
      "r = None"
      "graph_stream g [HumanMessage (seed_content (notnovelhyp s))] (events s) = (Inr step, l1)"
      "reflection_field step ''shortname'' = Inr (JStr sn)"
      "similarity_search g l1 (JStr sn) = Inr papers"
      "make_row g step papers (l1 @ [SimilaritySearch (JStr sn) (Inr papers)]) = (Inr hypothesisdf, l3)"
      "s' = s\<lparr>hypothesisdf_all := hypothesisdf_all s @ [hypothesisdf], events := l3,
               notnovelhyp := notnovelhyp s @ sn\<rparr>"
      "from_messages g (''You are world class technical documentation writer. Given a list of publications, decide how the following hypothesis relates to it: '' @ sn) = None"
  | (aborted) e new where
      "r = Some e" "hypothesisdf_all s' = hypothesisdf_all s" "notnovelhyp s' = notnovelhyp s"
      "events s' = events s @ Write (HumanMessage (seed_content (notnovelhyp s))) # new"
proof -
  let ?seed = "[HumanMessage (seed_content (notnovelhyp s))]"
  obtain gr l1 where gs: "graph_stream g ?seed (events s) = (gr, l1)"
    by (cases "graph_stream g ?seed (events s)")
  from graph_stream_log[OF gs] obtain new1 where
    l1: "l1 = events s @ Write (HumanMessage (seed_content (notnovelhyp s))) # new1" by auto
  show ?thesis
  proof (cases gr)
    case (Inl e)
    with assms gs have "r = Some e" "s' = s\<lparr>events := l1\<rparr>" by (auto simp: hypothesis_cycle_def)
    with l1 show ?thesis by (intro aborted[of e new1]) simp_all
  next
    case step: (Inr step)
    show ?thesis
    proof (cases "reflection_field step ''shortname''")
      case (Inl e)
      with assms gs step have "r = Some e" "s' = s\<lparr>events := l1\<rparr>"
        by (auto simp: hypothesis_cycle_def)
      with l1 show ?thesis by (intro aborted[of e new1]) simp_all
    next
      case v: (Inr v)
      let ?l2 = "l1 @ [SimilaritySearch v (similarity_search g l1 v)]"
      show ?thesis
      proof (cases "similarity_search g l1 v")
        case (Inl e)
        with assms gs step v have "r = Some e" "s' = s\<lparr>events := ?l2\<rparr>"
          by (auto simp: hypothesis_cycle_def Let_def)
        with l1 show ?thesis by (intro aborted[of e "new1 @ [SimilaritySearch v (similarity_search g l1 v)]"]) simp_all
      next
        case papers: (Inr papers)
        show ?thesis
        proof (cases v)
          case (JStr sn)
          let ?text = "''You are world class technical documentation writer. Given a list of publications, decide how the following hypothesis relates to it: '' @ sn"
          show ?thesis
          proof (cases "from_messages g ?text")
            case (Some e)
            with assms gs step v papers JStr have "r = Some e" "s' = s\<lparr>events := ?l2\<rparr>"
              by (auto simp: hypothesis_cycle_def Let_def)
            with l1 show ?thesis
              by (intro aborted[of e "new1 @ [SimilaritySearch v (similarity_search g l1 v)]"]) simp_all
          next
            case parsed: None
            obtain mr l3 where mk: "make_row g step papers ?l2 = (mr, l3)"
              by (cases "make_row g step papers ?l2")
            from make_row_log[OF mk] obtain new3 where l3: "l3 = ?l2 @ new3" by blast
            show ?thesis
            proof (cases mr)
              case (Inl e)
              with assms gs step v papers JStr parsed mk have "r = Some e" "s' = s\<lparr>events := l3\<rparr>"
                by (auto simp: hypothesis_cycle_def Let_def)
              with l1 l3 show ?thesis
                by (intro aborted[of e "new1 @ [SimilaritySearch v (similarity_search g l1 v)] @ new3"]) simp_all
            next
              case (Inr hypothesisdf)
              with assms gs step v papers JStr parsed mk have
                "r = None"
                "s' = s\<lparr>hypothesisdf_all := hypothesisdf_all s @ [hypothesisdf], events := l3,
                         notnovelhyp := notnovelhyp s @ sn\<rparr>"
                by (auto simp: hypothesis_cycle_def Let_def bind_def)
              with gs step v papers JStr parsed mk Inr show ?thesis
                by (intro completed[of step l1 sn papers hypothesisdf l3]) simp_all
            qed
          qed
        next
          case JNull
          with assms gs step v papers have "r = Some TypeError" "s' = s\<lparr>events := ?l2\<rparr>"
            by (auto simp: hypothesis_cycle_def Let_def)
          with l1 show ?thesis
            by (intro aborted[of TypeError "new1 @ [SimilaritySearch v (similarity_search g l1 v)]"]) simp_all
        next
          case (JBool x)
          with assms gs step v papers have "r = Some TypeError" "s' = s\<lparr>events := ?l2\<rparr>"
            by (auto simp: hypothesis_cycle_def Let_def)
          with l1 show ?thesis
            by (intro aborted[of TypeError "new1 @ [SimilaritySearch v (similarity_search g l1 v)]"]) simp_all
        next
          case (JInt x)
          with assms gs step v papers have "r = Some TypeError" "s' = s\<lparr>events := ?l2\<rparr>"
            by (auto simp: hypothesis_cycle_def Let_def)
          with l1 show ?thesis
            by (intro aborted[of TypeError "new1 @ [SimilaritySearch v (similarity_search g l1 v)]"]) simp_all
        next
          case (JList x)
          with assms gs step v papers have "r = Some TypeError" "s' = s\<lparr>events := ?l2\<rparr>"
            by (auto simp: hypothesis_cycle_def Let_def)
          with l1 show ?thesis
            by (intro aborted[of TypeError "new1 @ [SimilaritySearch v (similarity_search g l1 v)]"]) simp_all
        next
          case (JDict x)
          with assms gs step v papers have "r = Some TypeError" "s' = s\<lparr>events := ?l2\<rparr>"
            by (auto simp: hypothesis_cycle_def Let_def)
          with l1 show ?thesis
            by (intro aborted[of TypeError "new1 @ [SimilaritySearch v (similarity_search g l1 v)]"]) simp_all
        qed
      qed
    qed
  qed
qed

lemma hypothesis_cycle_completed:
  assumes "hypothesis_cycle g s = (None, s')"
  shows "\<exists>step l1 sn a v3 v4 v5 v6 v7 v8 papers bio rel row.
           graph_stream g [HumanMessage (seed_content (notnovelhyp s))] (events s) = (Inr step, l1)
         \<and> reflection_field step ''shortname'' = Inr (JStr sn)
         \<and> answer_field step = Inr (JStr a)
         \<and> reflection_field step ''noveltyscore'' = Inr v3
         \<and> reflection_field step ''notnovel'' = Inr v4
         \<and> reflection_field step ''missing'' = Inr v5
         \<and> reflection_field step ''superfluous'' = Inr v6
         \<and> reflection_field step ''flag'' = Inr v7
         \<and> reflection_field step ''references_field'' = Inr v8
         \<and> similarity_search g l1 (JStr sn) = Inr papers
         \<and> from_messages g (''You are world class technical documentation writer. Given a list of publications, decide how the following hypothesis relates to it: '' @ sn) = None
         \<and> chain_with_guardrails g (l1 @ [SimilaritySearch (JStr sn) (Inr papers)])
              (''Does the following contain any restricted topics?: '' @ a) = Inr bio
         \<and> llm_short g (l1 @ [SimilaritySearch (JStr sn) (Inr papers),
                Guardrails (''Does the following contain any restricted topics?: '' @ a) (Inr bio)])
              (prompt papers) = Inr rel
         \<and> data_frame
               [(''Hypotheses short description'', JStr sn), (''Generated Hypotheses'', JStr a),
                (''Novelty'', v3), (''What is not novel'', v4), (''Missing'', v5),
                (''Superfluous'', v6), (''Flag'', v7), (''References'', v8),
                (''Biohazard'', bio), (''Relations to literature'', JStr rel)] = Inr row
         \<and> hypothesisdf_all s' = hypothesisdf_all s @ [row]
         \<and> notnovelhyp s' = notnovelhyp s @ sn
         \<and> events s' = l1 @ [SimilaritySearch (JStr sn) (Inr papers),
               Guardrails (''Does the following contain any restricted topics?: '' @ a) (Inr bio),
               LlmShort (prompt papers) (Inr rel)]"
  using assms
proof (cases rule: hypothesis_cycle_cases)
  case (completed step l1 sn papers hypothesisdf l3)
  from make_row_Inr[OF completed(5)] obtain cols a bio rel where mr:
    "extracted_fields step = Inr cols" "answer_field step = Inr (JStr a)"
    "chain_with_guardrails g (l1 @ [SimilaritySearch (JStr sn) (Inr papers)])
       (''Does the following contain any restricted topics?: '' @ a) = Inr bio"
    "llm_short g ((l1 @ [SimilaritySearch (JStr sn) (Inr papers)]) @
         [Guardrails (''Does the following contain any restricted topics?: '' @ a) (Inr bio)])
       (prompt papers) = Inr rel"
    "data_frame (cols @ [(''Biohazard'', bio), (''Relations to literature'', JStr rel)]) = Inr hypothesisdf"
    "l3 = (l1 @ [SimilaritySearch (JStr sn) (Inr papers)]) @
       [Guardrails (''Does the following contain any restricted topics?: '' @ a) (Inr bio),
        LlmShort (prompt papers) (Inr rel)]"
    by blast
  from extracted_fields_Inr[OF mr(1)] completed(3) mr(2) obtain v3 v4 v5 v6 v7 v8 where f:
    "reflection_field step ''noveltyscore'' = Inr v3"
    "reflection_field step ''notnovel'' = Inr v4"
    "reflection_field step ''missing'' = Inr v5"
    "reflection_field step ''superfluous'' = Inr v6"
    "reflection_field step ''flag'' = Inr v7"
    "reflection_field step ''references_field'' = Inr v8"
    "cols = [(''Hypotheses short description'', JStr sn), (''Generated Hypotheses'', JStr a),
             (''Novelty'', v3), (''What is not novel'', v4), (''Missing'', v5),
             (''Superfluous'', v6), (''Flag'', v7), (''References'', v8)]"
    by auto
  from mr(5) f(7) have df: "data_frame
               [(''Hypotheses short description'', JStr sn), (''Generated Hypotheses'', JStr a),
                (''Novelty'', v3), (''What is not novel'', v4), (''Missing'', v5),
                (''Superfluous'', v6), (''Flag'', v7), (''References'', v8),
                (''Biohazard'', bio), (''Relations to literature'', JStr rel)] = Inr hypothesisdf"
    by simp
  from mr(4) have ls: "llm_short g (l1 @ [SimilaritySearch (JStr sn) (Inr papers),
                Guardrails (''Does the following contain any restricted topics?: '' @ a) (Inr bio)])
              (prompt papers) = Inr rel" by simp
  from completed(6) mr(6) have st:
    "hypothesisdf_all s' = hypothesisdf_all s @ [hypothesisdf]"
    "notnovelhyp s' = notnovelhyp s @ sn"
    "events s' = l1 @ [SimilaritySearch (JStr sn) (Inr papers),
               Guardrails (''Does the following contain any restricted topics?: '' @ a) (Inr bio),
               LlmShort (prompt papers) (Inr rel)]"
    by simp_all
  show ?thesis
    apply (rule exI[of _ step], rule exI[of _ l1], rule exI[of _ sn], rule exI[of _ a])
    apply (rule exI[of _ v3], rule exI[of _ v4], rule exI[of _ v5], rule exI[of _ v6])
    apply (rule exI[of _ v7], rule exI[of _ v8], rule exI[of _ papers], rule exI[of _ bio])
    apply (rule exI[of _ rel], rule exI[of _ hypothesisdf])
    apply (intro conjI)
    apply (rule completed(2), rule completed(3), rule mr(2), rule f(1), rule f(2), rule f(3))
    apply (rule f(4), rule f(5), rule f(6), rule completed(4), rule completed(7), rule mr(3))
    apply (rule ls, rule df, rule st(1), rule st(2), rule st(3))
    done
next
  case (aborted e new)
  then show ?thesis by simp
qed

lemma hypothesis_cycle_clean:
  assumes "hypothesis_cycle g s = (None, s')"
  shows "\<forall>e\<in>set (drop (length (events s)) (events s')). \<not> failed e"
proof -
  from hypothesis_cycle_completed[OF assms] obtain step l1 sn papers a bio rel where
    gs: "graph_stream g [HumanMessage (seed_content (notnovelhyp s))] (events s) = (Inr step, l1)"
    and ev: "events s' = l1 @ [SimilaritySearch (JStr sn) (Inr papers),
               Guardrails (''Does the following contain any restricted topics?: '' @ a) (Inr bio),
               LlmShort (prompt papers) (Inr rel)]"
    by blast
  from graph_stream_log[OF gs] obtain new where
    "l1 = events s @ Write (HumanMessage (seed_content (notnovelhyp s))) # new"
    "\<forall>e\<in>set new. \<not> failed e" by auto
  with ev show ?thesis by auto
qed

lemma hypothesis_cycle_seed:
  assumes "hypothesis_cycle g s = (r, s')"
  shows "\<exists>new. events s' = events s @ Write (HumanMessage (seed_content (notnovelhyp s))) # new"
  using assms
proof (cases rule: hypothesis_cycle_cases)
  case (completed step l1 sn papers hypothesisdf l3)
  from graph_stream_log[OF completed(2)] make_row_log[OF completed(5)] completed(6)
  show ?thesis by auto
next
  case (aborted e new)
  then show ?thesis by simp
qed

lemma cycles_rows:
  "cycles g n s = (r, s') \<Longrightarrow>
     \<exists>rows. hypothesisdf_all s' = hypothesisdf_all s @ rows \<and> length rows \<le> n
       \<and> (r = None \<longrightarrow> length rows = n)
       \<and> notnovelhyp s' = notnovelhyp s @ concat (map short_name_of rows)"
proof (induction n arbitrary: s)
  case 0
  then show ?case by simp
next
  case (Suc n)
  obtain r1 s1 where one: "hypothesis_cycle g s = (r1, s1)" by (cases "hypothesis_cycle g s")
  show ?case
  proof (cases r1)
    case (Some e)
    with one have "hypothesisdf_all s1 = hypothesisdf_all s" "notnovelhyp s1 = notnovelhyp s"
      by (auto elim: hypothesis_cycle_cases)
    moreover from Suc.prems one Some have "r = Some e" "s' = s1" by simp_all
    ultimately show ?thesis by (intro exI[of _ "[]"]) simp
  next
    case None
    with one hypothesis_cycle_completed[of g s s1] obtain row sn rest where row:
      "hypothesisdf_all s1 = hypothesisdf_all s @ [row]" "notnovelhyp s1 = notnovelhyp s @ sn"
      "data_frame ((''Hypotheses short description'', JStr sn) # rest) = Inr row"
      by blast
    from row(3) have "map_of row ''Hypotheses short description'' = Some (JStr sn)"
      by (auto split: sum.splits)
    from Suc.prems one None have "cycles g n s1 = (r, s')" by simp
    from Suc.IH[OF this] obtain rows where rows: "hypothesisdf_all s' = hypothesisdf_all s1 @ rows"
      "length rows \<le> n" "r = None \<longrightarrow> length rows = n"
      "notnovelhyp s' = notnovelhyp s1 @ concat (map short_name_of rows)" by blast
    moreover from \<open>map_of row ''Hypotheses short description'' = Some (JStr sn)\<close>
    have "short_name_of row = sn" by (simp add: short_name_of_def)
    ultimately show ?thesis using row(1,2)
      by (intro exI[of _ "row # rows"]) simp
  qed
qed

lemma cycles_add: "cycles g j s = (None, sj) \<Longrightarrow> cycles g (j + m) s = cycles g m sj"
proof (induction j arbitrary: s)
  case 0
  then show ?case by simp
next
  case (Suc j)
  then show ?case by (auto split: prod.splits option.splits)
qed


section \<open>Concrete runs of the outer loop\<close>

lemma seed_content_inject: "(seed_content a = seed_content b) = (a = b)"
  by (simp add: seed_content_def)

lemma stream_steps_unfold:
  "stream_steps g fuel (Some n) step l =
     (if fuel = 0 then (Inl GraphRecursionError, l)
      else case run_node g n step l of
             (Inl e, l') \<Rightarrow> (Inl e, l')
           | (Inr (step', nxt), l') \<Rightarrow>
               stream_steps g (fuel - 1) nxt step' (l' @ [Write (last step')]))"
  by (cases fuel) (auto split: prod.splits sum.splits)

lemma stream_steps_end:
  "stream_steps g fuel None step l =
     (if fuel = 0 then (Inl GraphRecursionError, l) else (Inr step, l))"
  by (cases fuel) simp_all

lemmas run_simps =
  hypothesis_cycle_def graph_stream_def stream_steps_unfold stream_steps_end run_node.simps
  respond_node_def respond_def respond_loop.simps pydantic_tools_parser_def Let_def new_list_def
  str_nat.simps digit_def tool_node_def run_one.simps run_queries_def event_loop_def
  get_num_iterations_def final_args_def reflection_field_def answer_field_def make_row_def
  extracted_fields_def bind_def template_from_def seed_content_inject draft_call_def
  revise_call_def

lemma steady_cycle_1: "hypothesis_cycle steady_generator fresh = (None, after_alpha)"
  by (simp add: run_simps steady_generator_def fresh_def after_alpha_def alpha_row_def
        steady_events_def)

lemma steady_cycle_2:
  "hypothesis_cycle steady_generator after_alpha =
     (None, \<lparr>hypothesisdf_all = [alpha_row, beta_row], notnovelhyp = ''alphabeta'',
             events = steady_events [] ''alpha'' @ steady_events ''alpha'' ''beta''\<rparr>)"
  by (simp add: run_simps steady_generator_def after_alpha_def alpha_row_def beta_row_def
        steady_events_def)

lemma broken_cycle_1: "hypothesis_cycle broken_generator fresh = (None, after_alpha)"
  by (simp add: run_simps broken_generator_def steady_generator_def fresh_def after_alpha_def
        alpha_row_def steady_events_def)

lemma broken_cycle_2:
  "hypothesis_cycle broken_generator after_alpha =
     (Some (Fault ''model endpoint unavailable''),
      \<lparr>hypothesisdf_all = [alpha_row], notnovelhyp = ''alpha'',
       events = steady_events [] ''alpha'' @ take 10 (steady_events ''alpha'' ''beta'') @
         [LlmShort (prompt ''[Document 1, Document 2]'')
            (Inl (Fault ''model endpoint unavailable''))]\<rparr>)"
  by (simp add: run_simps broken_generator_def steady_generator_def after_alpha_def
        alpha_row_def steady_events_def)

lemma swallowing_cycle_1: "hypothesis_cycle swallowing_generator fresh = (None, after_alpha)"
  by (simp add: run_simps swallowing_generator_def guarded_chain_def failing_policy_def
        steady_generator_def fresh_def after_alpha_def alpha_row_def steady_events_def)

lemma swallowing_cycle_2:
  "hypothesis_cycle swallowing_generator after_alpha =
     (None, \<lparr>hypothesisdf_all = [alpha_row, unjudged_beta_row], notnovelhyp = ''alphabeta'',
             events = steady_events [] ''alpha'' @ swallowed_events ''alpha''\<rparr>)"
  by (simp add: run_simps swallowing_generator_def guarded_chain_def failing_policy_def
        steady_generator_def after_alpha_def alpha_row_def unjudged_beta_row_def
        steady_events_def swallowed_events_def)

lemma swallowing_cycle_3:
  "hypothesis_cycle swallowing_generator
     \<lparr>hypothesisdf_all = [alpha_row, unjudged_beta_row], notnovelhyp = ''alphabeta'',
      events = steady_events [] ''alpha'' @ swallowed_events ''alpha''\<rparr> =
     (None, \<lparr>hypothesisdf_all = [alpha_row, unjudged_beta_row, unjudged_beta_row],
             notnovelhyp = ''alphabetabeta'',
             events = steady_events [] ''alpha'' @ swallowed_events ''alpha'' @
                      swallowed_events ''alphabeta''\<rparr>)"
  by (simp add: run_simps swallowing_generator_def guarded_chain_def failing_policy_def
        steady_generator_def alpha_row_def unjudged_beta_row_def
        steady_events_def swallowed_events_def)

lemma swallowing_run:
  "cycles swallowing_generator 3 fresh =
     (None, \<lparr>hypothesisdf_all = [alpha_row, unjudged_beta_row, unjudged_beta_row],
             notnovelhyp = ''alphabetabeta'',
             events = steady_events [] ''alpha'' @ swallowed_events ''alpha'' @
                      swallowed_events ''alphabeta''\<rparr>)"
  by (simp add: numeral_3_eq_3 swallowing_cycle_1 swallowing_cycle_2 swallowing_cycle_3)



section \<open>The outer loop: faults\<close>


lemma cycles_abort:
  assumes "cycles g j s = (None, sj)" and "hypothesis_cycle g sj = (Some e, s')" and "j < n"
  shows "cycles g n s = (Some e, s')"
proof -
  from assms(3) obtain m where n: "n = j + Suc m" by (auto simp: less_iff_Suc_add)
  from assms(2) have "cycles g (Suc m) sj = (Some e, s')" by simp
  with cycles_add[OF assms(1), of "Suc m"] n show ?thesis by simp
qed

lemma cycles_resume:
  assumes "cycles g j s = (None, sj)" and "hypothesis_cycle g sj = (None, s')" and "j < n"
  shows "cycles g n s = cycles g (n - Suc j) s'"
proof -
  from assms(3) obtain m where n: "n = j + Suc m" by (auto simp: less_iff_Suc_add)
  from assms(2) have "cycles g (Suc m) sj = cycles g m s'" by simp
  with cycles_add[OF assms(1), of "Suc m"] n show ?thesis by simp
qed

lemma data_frame_ten:
  assumes "data_frame [(k0, JStr sn), (k1, JStr a), (k2, v3), (k3, v4), (k4, v5), (k5, v6),
             (k6, v7), (k7, v8), (k8, bio), (k9, JStr rel)] = Inr row"
  shows "\<exists>c3 c4 c5 c6 c7 c8 cell.
           row = [(k0, JStr sn), (k1, JStr a), (k2, c3), (k3, c4), (k4, c5), (k5, c6),
                  (k6, c7), (k7, c8), (k8, cell), (k9, JStr rel)]
         \<and> data_frame_cell v3 = Inr c3 \<and> data_frame_cell v4 = Inr c4
         \<and> data_frame_cell v5 = Inr c5 \<and> data_frame_cell v6 = Inr c6
         \<and> data_frame_cell v7 = Inr c7 \<and> data_frame_cell v8 = Inr c8
         \<and> data_frame_cell bio = Inr cell"
  using assms by (auto split: sum.splits)

text \<open>
  C5, as amended. Suppose j outer iterations have completed and the next one is run. If a
  call to the model endpoint, the retriever, the guarded policy chain or the
  literature-relation model raises during it, the iteration ends in an error, the loop
  ends with that error and the session as the failing iteration left it (no later
  iteration runs), and the table holds exactly the j rows appended before, with nothing
  added. Whenever an iteration does change the table, it has completed: it appended one
  row, and the policy check and the literature-relation call are the last two events of
  its record; the row's last value is the text of the literature-relation call, and the
  one before it is the cell the data frame makes of the guarded chain's answer, which is
  empty when that answer is a dictionary, as it is when the guarded chain has caught a
  failure of the policy model. A completed iteration is followed by the remaining ones.
\<close>

theorem fault_keeps_earlier_rows:
  assumes "cycles g j s = (None, sj)"
      and "hypothesis_cycle g sj = (r, s')"
      and "j < n"
  shows "((\<exists>e\<in>set (drop (length (events sj)) (events s')). failed e) \<longrightarrow>
            r \<noteq> None \<and> cycles g n s = (r, s')
          \<and> hypothesisdf_all s' = hypothesisdf_all sj
          \<and> length (hypothesisdf_all sj) = length (hypothesisdf_all s) + j
          \<and> take (length (hypothesisdf_all s)) (hypothesisdf_all sj) = hypothesisdf_all s)
       \<and> (hypothesisdf_all s' \<noteq> hypothesisdf_all sj \<longrightarrow>
            r = None
          \<and> (\<exists>hypothesisdf q bio cell ms rel.
                hypothesisdf_all s' = hypothesisdf_all sj @ [hypothesisdf]
              \<and> drop (length (events s') - 2) (events s') =
                  [Guardrails q (Inr bio), LlmShort ms (Inr rel)]
              \<and> data_frame_cell bio = Inr cell
              \<and> (\<forall>kvs. bio = JDict kvs \<longrightarrow> cell = JNull)
              \<and> drop 8 hypothesisdf =
                  [(''Biohazard'', cell), (''Relations to literature'', JStr rel)]))
       \<and> (r = None \<longrightarrow> cycles g n s = cycles g (n - Suc j) s')"
proof (intro conjI impI)
  assume fault: "\<exists>e\<in>set (drop (length (events sj)) (events s')). failed e"
  have "r \<noteq> None \<and> cycles g n s = (r, s')
          \<and> hypothesisdf_all s' = hypothesisdf_all sj
          \<and> length (hypothesisdf_all sj) = length (hypothesisdf_all s) + j
          \<and> take (length (hypothesisdf_all s)) (hypothesisdf_all sj) = hypothesisdf_all s"
  proof (cases r)
    case None
    with assms(2) hypothesis_cycle_clean[of g sj s'] fault show ?thesis by blast
  next
    case (Some e)
    with assms(2) have "hypothesisdf_all s' = hypothesisdf_all sj"
      by (auto elim: hypothesis_cycle_cases)
    moreover from cycles_abort[OF assms(1) assms(2)[unfolded Some] assms(3)] Some
    have "cycles g n s = (r, s')" by simp
    moreover from cycles_rows[OF assms(1)]
    have "length (hypothesisdf_all sj) = length (hypothesisdf_all s) + j"
      "take (length (hypothesisdf_all s)) (hypothesisdf_all sj) = hypothesisdf_all s" by auto
    ultimately show ?thesis using Some by simp
  qed
  then show "r \<noteq> None" "cycles g n s = (r, s')" "hypothesisdf_all s' = hypothesisdf_all sj"
    "length (hypothesisdf_all sj) = length (hypothesisdf_all s) + j"
    "take (length (hypothesisdf_all s)) (hypothesisdf_all sj) = hypothesisdf_all s"
    by simp_all
next
  assume changed: "hypothesisdf_all s' \<noteq> hypothesisdf_all sj"
  show none: "r = None"
  proof (cases r)
    case (Some e)
    with assms(2) changed show ?thesis by (auto elim: hypothesis_cycle_cases)
  qed simp
  from hypothesis_cycle_completed[OF assms(2)[unfolded none]]
  obtain l1 sn a v3 v4 v5 v6 v7 v8 papers bio rel row where c:
    "data_frame
       [(''Hypotheses short description'', JStr sn), (''Generated Hypotheses'', JStr a),
        (''Novelty'', v3), (''What is not novel'', v4), (''Missing'', v5),
        (''Superfluous'', v6), (''Flag'', v7), (''References'', v8),
        (''Biohazard'', bio), (''Relations to literature'', JStr rel)] = Inr row"
    "hypothesisdf_all s' = hypothesisdf_all sj @ [row]"
    "events s' = l1 @ [SimilaritySearch (JStr sn) (Inr papers),
               Guardrails (''Does the following contain any restricted topics?: '' @ a) (Inr bio),
               LlmShort (prompt papers) (Inr rel)]"
    by blast
  from data_frame_ten[OF c(1)] obtain cell where cell: "data_frame_cell bio = Inr cell"
    "drop 8 row = [(''Biohazard'', cell), (''Relations to literature'', JStr rel)]"
    by auto
  from cell(1) have empty: "\<forall>kvs. bio = JDict kvs \<longrightarrow> cell = JNull" by auto
  from c(3) have last2: "drop (length (events s') - 2) (events s') =
      [Guardrails (''Does the following contain any restricted topics?: '' @ a) (Inr bio),
       LlmShort (prompt papers) (Inr rel)]" by simp
  show "\<exists>hypothesisdf q bio cell ms rel.
                hypothesisdf_all s' = hypothesisdf_all sj @ [hypothesisdf]
              \<and> drop (length (events s') - 2) (events s') =
                  [Guardrails q (Inr bio), LlmShort ms (Inr rel)]
              \<and> data_frame_cell bio = Inr cell
              \<and> (\<forall>kvs. bio = JDict kvs \<longrightarrow> cell = JNull)
              \<and> drop 8 hypothesisdf =
                  [(''Biohazard'', cell), (''Relations to literature'', JStr rel)]"
    apply (rule exI[of _ row])
    apply (rule exI[of _ "''Does the following contain any restricted topics?: '' @ a"])
    apply (rule exI[of _ bio], rule exI[of _ cell], rule exI[of _ "prompt papers"])
    apply (rule exI[of _ rel])
    apply (intro conjI)
    apply (rule c(2), rule last2, rule cell(1), rule empty, rule cell(2))
    done
next
  assume "r = None"
  with assms(2) have "hypothesis_cycle g sj = (None, s')" by simp
  from cycles_resume[OF assms(1) this assms(3)]
  show "cycles g n s = cycles g (n - Suc j) s'" .
qed

text \<open>Of three iterations asked for, the first appends its row. With a
  literature-relation model that fails on its second call, the second iteration ends in
  the fault and the third never runs. With a guarded chain that answers its second call
  with a dictionary, the second iteration appends a row with an empty cell, and the
  third runs.\<close>

theorem fault_keeps_earlier_rows_witness:
  "cycles broken_generator 3 fresh = (Some (Fault ''model endpoint unavailable''),
      snd (hypothesis_cycle broken_generator after_alpha))
   \<and> hypothesisdf_all (snd (hypothesis_cycle broken_generator after_alpha)) = [alpha_row]
   \<and> list_ex failed (drop (length (events after_alpha))
        (events (snd (hypothesis_cycle broken_generator after_alpha))))
   \<and> cycles broken_generator 1 fresh = (None, after_alpha)
   \<and> cycles swallowing_generator 1 fresh = (None, after_alpha)
   \<and> hypothesis_cycle swallowing_generator after_alpha =
       (None, \<lparr>hypothesisdf_all = [alpha_row, unjudged_beta_row], notnovelhyp = ''alphabeta'',
               events = steady_events [] ''alpha'' @ swallowed_events ''alpha''\<rparr>)
   \<and> cycles swallowing_generator 3 fresh =
       cycles swallowing_generator 1
         \<lparr>hypothesisdf_all = [alpha_row, unjudged_beta_row], notnovelhyp = ''alphabeta'',
          events = steady_events [] ''alpha'' @ swallowed_events ''alpha''\<rparr>
   \<and> drop 8 unjudged_beta_row =
       [(''Biohazard'', JNull), (''Relations to literature'', JStr ''Extends Document 1'')]"
proof -
  have one: "cycles broken_generator 1 fresh = (None, after_alpha)"
    using broken_cycle_1 by simp
  have fault: "\<exists>e\<in>set (drop (length (events after_alpha))
       (events (snd (hypothesis_cycle broken_generator after_alpha)))). failed e"
    unfolding broken_cycle_2 by (simp add: after_alpha_def steady_events_def)
  have two: "hypothesis_cycle broken_generator after_alpha =
      (fst (hypothesis_cycle broken_generator after_alpha), snd (hypothesis_cycle broken_generator after_alpha))"
    by simp
  have lt: "(1::nat) < 3" by simp
  note broken = fault_keeps_earlier_rows[OF one two lt, THEN conjunct1, rule_format, OF fault]
  from broken have b1: "cycles broken_generator 3 fresh = (Some (Fault ''model endpoint unavailable''),
      snd (hypothesis_cycle broken_generator after_alpha))"
    by (simp add: broken_cycle_2)
  from broken have b2: "hypothesisdf_all (snd (hypothesis_cycle broken_generator after_alpha)) = [alpha_row]"
    by (simp add: after_alpha_def)
  from fault have b3: "list_ex failed (drop (length (events after_alpha))
        (events (snd (hypothesis_cycle broken_generator after_alpha))))"
    by (simp add: list_ex_iff)
  have sone: "cycles swallowing_generator 1 fresh = (None, after_alpha)"
    using swallowing_cycle_1 by simp
  note swallowed = fault_keeps_earlier_rows[OF sone swallowing_cycle_2 lt]
  have changed: "hypothesisdf_all \<lparr>hypothesisdf_all = [alpha_row, unjudged_beta_row],
       notnovelhyp = ''alphabeta'',
       events = steady_events [] ''alpha'' @ swallowed_events ''alpha''\<rparr> \<noteq> hypothesisdf_all after_alpha"
    by (simp add: after_alpha_def)
  from swallowed[THEN conjunct2, THEN conjunct1, rule_format, OF changed]
  have s1: "drop 8 unjudged_beta_row =
       [(''Biohazard'', JNull), (''Relations to literature'', JStr ''Extends Document 1'')]"
    by (simp add: unjudged_beta_row_def)
  from swallowed[THEN conjunct2, THEN conjunct2, rule_format, OF refl]
  have s2: "cycles swallowing_generator 3 fresh =
       cycles swallowing_generator 1
         \<lparr>hypothesisdf_all = [alpha_row, unjudged_beta_row], notnovelhyp = ''alphabeta'',
          events = steady_events [] ''alpha'' @ swallowed_events ''alpha''\<rparr>"
    by simp
  show ?thesis
    by (intro conjI) (rule b1, rule b2, rule b3, rule one, rule sone, rule swallowing_cycle_2,
        rule s2, rule s1)
qed

text \<open>
  C5 as stated fails for the policy check: the policy model fails in the second of three
  iterations, the guarded chain catches the failure and answers with a dictionary, the
  second iteration appends its row with an empty cell for the policy judgment, and the
  third iteration runs and appends its row too.
\<close>

theorem fault_swallowed_counterexample:
  "failing_policy (events after_alpha @ take 9 (steady_events ''alpha'' ''beta''))
     ''Does the following contain any restricted topics?: beta in full'' =
       Inl (Fault ''policy endpoint unavailable'')
   \<and> fst (cycles swallowing_generator 3 fresh) = None
   \<and> hypothesisdf_all (snd (cycles swallowing_generator 3 fresh)) =
       [alpha_row, unjudged_beta_row, unjudged_beta_row]
   \<and> map_of unjudged_beta_row ''Biohazard'' = Some JNull
   \<and> \<not> list_ex failed (events (snd (cycles swallowing_generator 3 fresh)))"
  unfolding swallowing_run
  by (simp add: failing_policy_def after_alpha_def steady_events_def swallowed_events_def
        unjudged_beta_row_def)

section \<open>The outer loop: known concepts\<close>

lemma sublist_concat: "x \<in> set xs \<Longrightarrow> sublist x (concat xs)"
proof (induction xs)
  case Nil
  then show ?case by simp
next
  case (Cons y ys)
  show ?case
  proof (cases "x = y")
    case True
    then show ?thesis by simp
  next
    case False
    with Cons have "sublist x (concat ys)" by simp
    then obtain ps ss where "concat ys = ps @ x @ ss" by (auto simp: sublist_def)
    then have "concat (y # ys) = (y @ ps) @ x @ ss" by simp
    then show ?thesis unfolding sublist_def by blast
  qed
qed

lemma sublist_seed: "sublist x known \<Longrightarrow> sublist x (seed_content known)"
proof -
  assume "sublist x known"
  then obtain ps ss where "known = ps @ x @ ss" by (auto simp: sublist_def)
  then have "\<exists>qs. seed_content known = qs @ x @ ss" by (simp add: seed_content_def)
  then show ?thesis unfolding sublist_def by blast
qed

text \<open>
  C4. The string of known concepts starts empty and only grows. After any number of outer
  iterations it is what it was before them followed by the short names of the rows
  appended since, in order and with nothing between them (k rows after k completed
  iterations); at the end of a whole run it is the concatenation of the short names of
  all rows. The next iteration begins by writing its seed message, whose text ends with
  that string, so the string and every one of those short names occur in the seed.
\<close>

theorem known_concepts_accumulate:
  assumes "cycles g k s = (r, sk)"
  shows "notnovelhyp sk =
           notnovelhyp s @
           concat (map short_name_of (drop (length (hypothesisdf_all s)) (hypothesisdf_all sk)))
       \<and> (r = None \<longrightarrow> length (hypothesisdf_all sk) = length (hypothesisdf_all s) + k)
       \<and> prefix (notnovelhyp s) (notnovelhyp sk)
       \<and> sublist (notnovelhyp sk) (seed_content (notnovelhyp sk))
       \<and> (\<forall>row\<in>set (drop (length (hypothesisdf_all s)) (hypothesisdf_all sk)).
            sublist (short_name_of row) (seed_content (notnovelhyp sk)))
       \<and> (\<exists>new. events (snd (hypothesis_cycle g sk)) =
                  events sk @ Write (HumanMessage (seed_content (notnovelhyp sk))) # new)
       \<and> (\<forall>rows s'. generate_hypotheses g t l = (Inr rows, s') \<longrightarrow>
            notnovelhyp s' = concat (map short_name_of rows))"
proof -
  from cycles_rows[OF assms] obtain rows where rows:
    "hypothesisdf_all sk = hypothesisdf_all s @ rows" "r = None \<longrightarrow> length rows = k"
    "notnovelhyp sk = notnovelhyp s @ concat (map short_name_of rows)" by blast
  have each: "\<forall>row\<in>set rows. sublist (short_name_of row) (seed_content (notnovelhyp sk))"
  proof
    fix row assume "row \<in> set rows"
    then have "sublist (short_name_of row) (concat (map short_name_of rows))"
      by (intro sublist_concat) simp
    then obtain ps ss where "concat (map short_name_of rows) = ps @ short_name_of row @ ss"
      by (auto simp: sublist_def)
    with rows(3) have "notnovelhyp sk = (notnovelhyp s @ ps) @ short_name_of row @ ss" by simp
    then have "sublist (short_name_of row) (notnovelhyp sk)" unfolding sublist_def by blast
    then show "sublist (short_name_of row) (seed_content (notnovelhyp sk))" by (rule sublist_seed)
  qed
  have seed: "\<exists>new. events (snd (hypothesis_cycle g sk)) =
                  events sk @ Write (HumanMessage (seed_content (notnovelhyp sk))) # new"
    using hypothesis_cycle_seed[of g sk "fst (hypothesis_cycle g sk)" "snd (hypothesis_cycle g sk)"]
    by simp
  have gen: "\<forall>rows s'. generate_hypotheses g t l = (Inr rows, s') \<longrightarrow>
            notnovelhyp s' = concat (map short_name_of rows)"
  proof (intro allI impI)
    fix rows' s' assume g: "generate_hypotheses g t l = (Inr rows', s')"
    then obtain l0 where "cycles g (nat (iterations g))
        \<lparr>hypothesisdf_all = [], notnovelhyp = [], events = l0\<rparr> = (None, s')"
      "rows' = hypothesisdf_all s'"
      by (auto simp: generate_hypotheses_def split: prod.splits sum.splits option.splits)
    with cycles_rows[of g "nat (iterations g)" "\<lparr>hypothesisdf_all = [], notnovelhyp = [], events = l0\<rparr>" None s']
    show "notnovelhyp s' = concat (map short_name_of rows')" by auto
  qed
  from rows each seed gen show ?thesis
    by (simp add: sublist_seed)
qed

lemma steady_two:
  "cycles steady_generator 2 fresh =
     (None, \<lparr>hypothesisdf_all = [alpha_row, beta_row], notnovelhyp = ''alphabeta'',
             events = steady_events [] ''alpha'' @ steady_events ''alpha'' ''beta''\<rparr>)"
  by (simp add: numeral_2_eq_2 steady_cycle_1 steady_cycle_2)

text \<open>Two iterations producing alpha, then beta: the third seed carries alphabeta.\<close>

theorem known_concepts_accumulate_witness:
  "cycles steady_generator 2 fresh =
     (None, \<lparr>hypothesisdf_all = [alpha_row, beta_row], notnovelhyp = ''alphabeta'',
             events = steady_events [] ''alpha'' @ steady_events ''alpha'' ''beta''\<rparr>)
   \<and> notnovelhyp fresh = []
   \<and> map short_name_of [alpha_row, beta_row] = [''alpha'', ''beta'']
   \<and> sublist ''alpha'' (seed_content ''alphabeta'')
   \<and> sublist ''beta'' (seed_content ''alphabeta'')
   \<and> (\<exists>new. events (snd (hypothesis_cycle steady_generator
          \<lparr>hypothesisdf_all = [alpha_row, beta_row], notnovelhyp = ''alphabeta'',
           events = steady_events [] ''alpha'' @ steady_events ''alpha'' ''beta''\<rparr>)) =
        (steady_events [] ''alpha'' @ steady_events ''alpha'' ''beta'') @
        Write (HumanMessage (seed_content ''alphabeta'')) # new)"
proof -
  have names: "short_name_of alpha_row = ''alpha''" "short_name_of beta_row = ''beta''"
    by (simp_all add: short_name_of_def alpha_row_def beta_row_def)
  have empty: "notnovelhyp fresh = []" by (simp add: fresh_def)
  note acc = known_concepts_accumulate[OF steady_two, of "[]" "[]"]
  note rows = acc[THEN conjunct2, THEN conjunct2, THEN conjunct2, THEN conjunct2, THEN conjunct1]
  note seed = acc[THEN conjunct2, THEN conjunct2, THEN conjunct2, THEN conjunct2, THEN conjunct2,
                  THEN conjunct1]
  from rows have "sublist (short_name_of alpha_row) (seed_content ''alphabeta'')"
    "sublist (short_name_of beta_row) (seed_content ''alphabeta'')"
    by (simp_all add: fresh_def)
  with names have subs: "sublist ''alpha'' (seed_content ''alphabeta'')"
    "sublist ''beta'' (seed_content ''alphabeta'')" by simp_all
  from seed have next_seed: "\<exists>new. events (snd (hypothesis_cycle steady_generator
          \<lparr>hypothesisdf_all = [alpha_row, beta_row], notnovelhyp = ''alphabeta'',
           events = steady_events [] ''alpha'' @ steady_events ''alpha'' ''beta''\<rparr>)) =
        (steady_events [] ''alpha'' @ steady_events ''alpha'' ''beta'') @
        Write (HumanMessage (seed_content ''alphabeta'')) # new"
    by simp
  show ?thesis
    by (intro conjI) (rule steady_two, rule empty, simp add: names, rule subs(1), rule subs(2),
        rule next_seed)
qed

section \<open>The outer loop: rows\<close>










section \<open>The literature-relation call\<close>

text \<open>
  C3. The chain invoked for the literature-relation annotation is built from \<^verbatim>\<open>prompt\<close>,
  not from \<^verbatim>\<open>prompt_short\<close>: in a completed iteration producing the hypothesis alpha, the
  model receives the general system text and the list of publications, and the short
  name occurs in neither.
\<close>

theorem literature_call_omits_hypothesis:
  "hypothesis_cycle steady_generator fresh = (None, after_alpha)
   \<and> hypothesisdf_all after_alpha = [alpha_row]
   \<and> map_of alpha_row ''Hypotheses short description'' = Some (JStr ''alpha'')
   \<and> map_of alpha_row ''Relations to literature'' = Some (JStr ''Extends Document 1'')
   \<and> last (events after_alpha) =
       LlmShort [SystemMessage ''You are world class technical documentation writer.'',
                 HumanMessage ''[Document 1, Document 2]''] (Inr ''Extends Document 1'')
   \<and> \<not> sublist ''alpha'' ''You are world class technical documentation writer.''
   \<and> \<not> sublist ''alpha'' ''[Document 1, Document 2]''
   \<and> prompt_short ''alpha'' ''[Document 1, Document 2]'' \<noteq> prompt ''[Document 1, Document 2]''"
proof -
  have a: "\<not> sublist ''alpha'' ''You are world class technical documentation writer.''"
    by (simp add: sublist_code)
  have b: "\<not> sublist ''alpha'' ''[Document 1, Document 2]''"
    by (simp add: sublist_code)
  show ?thesis
    by (intro conjI) (rule steady_cycle_1, simp add: after_alpha_def, simp add: alpha_row_def,
        simp add: alpha_row_def, simp add: after_alpha_def steady_events_def prompt_def,
        rule a, rule b, simp add: prompt_short_def prompt_def)
qed

end
